theory Spec2Isabelle
  imports Main "HOL-Library.Multiset"
begin

section \<open>Strings\<close>

text \<open>
  JavaScript strings are modelled as Isabelle strings, one \<^typ>\<open>char\<close> per code unit of
  ASCII text. The bullet U+2022 is written as its three UTF-8 bytes. White space is the
  ASCII part of what \<^verbatim>\<open>\s\<close> and \<^verbatim>\<open>trim\<close> recognise.
\<close>

definition is_space :: "char \<Rightarrow> bool" where
  "is_space c = (c = CHR '' '' \<or> c = CHR 0x09 \<or> c = CHR 0x0A \<or> c = CHR 0x0B
     \<or> c = CHR 0x0C \<or> c = CHR 0x0D)"

definition trim :: "string \<Rightarrow> string" where
  "trim s = rev (dropWhile is_space (rev (dropWhile is_space s)))"

definition startsWith :: "string \<Rightarrow> string \<Rightarrow> bool" where
  "startsWith s p = (take (length p) s = p)"

text \<open>\<^verbatim>\<open>s.split(d)\<close> for a one-character separator: the empty string gives one empty piece.\<close>

fun split_on :: "char \<Rightarrow> string \<Rightarrow> string list" where
  "split_on d [] = [[]]"
| "split_on d (c # cs) =
     (if c = d then [] # split_on d cs
      else (case split_on d cs of [] \<Rightarrow> [[c]] | l # ls \<Rightarrow> (c # l) # ls))"

text \<open>\<^verbatim>\<open>parts.join(sep)\<close>.\<close>

fun join :: "string \<Rightarrow> string list \<Rightarrow> string" where
  "join sep [] = []"
| "join sep [x] = x"
| "join sep (x # y # ys) = x @ sep @ join sep (y # ys)"

definition bullet :: string where
  "bullet = [CHR 0xE2, CHR 0x80, CHR 0xA2]"

text \<open>
  \<^verbatim>\<open>line.replace(/<[^>]*>/g, '')\<close>: a \<^verbatim>\<open><\<close> with a later \<^verbatim>\<open>>\<close> is removed together with
  everything up to the first such \<^verbatim>\<open>>\<close>; a \<^verbatim>\<open><\<close> with no \<^verbatim>\<open>>\<close> after it stays.
\<close>

function strip_tags :: "string \<Rightarrow> string" where
  "strip_tags [] = []"
| "strip_tags (c # cs) =
     (if c = CHR ''<'' \<and> CHR ''>'' \<in> set cs
      then strip_tags (tl (dropWhile (\<lambda>x. x \<noteq> CHR ''>'') cs))
      else c # strip_tags cs)"
  by pat_completeness auto
termination
proof (relation "measure length")
  fix c :: char and cs :: string
  have "length (tl (dropWhile (\<lambda>x. x \<noteq> CHR ''>'') cs)) \<le> length cs"
    using length_dropWhile_le [of "\<lambda>x. x \<noteq> CHR ''>''" cs] by simp
  then show "(tl (dropWhile (\<lambda>x. x \<noteq> CHR ''>'') cs), c # cs) \<in> measure length"
    by simp
qed simp_all

definition is_terminator :: "char \<Rightarrow> bool" where
  "is_terminator c = (c = CHR ''.'' \<or> c = CHR ''!'' \<or> c = CHR ''?'')"

text \<open>Upper and lower case of the letters a to z.\<close>

definition toUpperCase_char :: "char \<Rightarrow> char" where
  "toUpperCase_char c =
     (case map_of (zip ''abcdefghijklmnopqrstuvwxyz'' ''ABCDEFGHIJKLMNOPQRSTUVWXYZ'') c of
        None \<Rightarrow> c | Some u \<Rightarrow> u)"

definition toLowerCase_char :: "char \<Rightarrow> char" where
  "toLowerCase_char c =
     (case map_of (zip ''ABCDEFGHIJKLMNOPQRSTUVWXYZ'' ''abcdefghijklmnopqrstuvwxyz'') c of
        None \<Rightarrow> c | Some l \<Rightarrow> l)"

definition toLowerCase :: "string \<Rightarrow> string" where
  "toLowerCase s = map toLowerCase_char s"

text \<open>Decimal digits of a number, as a template string prints it.\<close>

fun show_nat :: "nat \<Rightarrow> string" where
  "show_nat n =
     (if n < 10 then [''0123456789'' ! n]
      else show_nat (n div 10) @ [''0123456789'' ! (n mod 10)])"

declare show_nat.simps [simp del]

section \<open>The history index (server.js, updateHistoryIndex)\<close>

text \<open>
  A chat as the home page builds it for one log file: only the fields the index reads.
  \<open>modifiedTime\<close> is the file's modification time in milliseconds; the index stores it as
  an ISO string, and the sort reads it back with \<^verbatim>\<open>new Date\<close>, so the model keeps the
  number. \<open>firstMessage\<close> and \<open>summary\<close> are strings, the last timestamp a string or
  \<^verbatim>\<open>null\<close>. (For a first message that is not a string, \<^verbatim>\<open>firstSentence.match\<close> throws, the
  catch of updateHistoryIndex logs the error and the file is left as it is; the model is of
  the scans whose first messages are strings.)
\<close>

record chat =
  chat_id :: string
  modifiedTime :: int
  firstMessage :: string
  summary :: string
  chat_messageCount :: nat
  chat_lastMessageTimestamp :: "string option"

text \<open>
  One entry of history-index.json. A field that may be missing from the JSON object is an
  option. \<open>oneLine\<close>, \<open>enhancedBullets\<close> and \<open>paragraph_field\<close> (the JSON field
  \<^verbatim>\<open>paragraph\<close>) are the field names of an older format, which
  updateHistoryIndex still reads; \<open>lastAnalyzed\<close> and a false \<open>needsAnalysis\<close> are written by
  runAnalysis only.
\<close>

record thread =
  thread_id :: string
  project :: string
  date :: int
  firstSentence :: string
  oneLineSummary :: "string option"
  oneLine :: "string option"
  bulletSummary :: "string list option"
  enhancedBullets :: "string list option"
  paragraphSummary :: "string option"
  paragraph_field :: "string option"
  messageCount :: nat
  lastMessageTimestamp :: "string option"
  needsAnalysis :: "bool option"
  lastAnalyzed :: "string option"

text \<open>Truthiness of an optional string: missing and empty are falsy.\<close>

definition truthy :: "string option \<Rightarrow> bool" where
  "truthy v = (case v of None \<Rightarrow> False | Some s \<Rightarrow> s \<noteq> [])"

text \<open>\<^verbatim>\<open>a || b\<close> on optional strings.\<close>

definition js_or :: "string option \<Rightarrow> string option \<Rightarrow> string option" where
  "js_or a b = (if truthy a then a else b)"

definition threadKey :: "string \<Rightarrow> string \<Rightarrow> string" where
  "threadKey p i = p @ '':'' @ i"

text \<open>The key of a stored entry, \<^verbatim>\<open>`${thread.project}:${thread.id}`\<close>.\<close>

definition keyOf :: "thread \<Rightarrow> string" where
  "keyOf t = threadKey (project t) (thread_id t)"

text \<open>The Map built from the existing index: a later entry with the same key replaces an earlier one.\<close>

definition existingMap :: "thread list \<Rightarrow> (string \<rightharpoonup> thread)" where
  "existingMap existingIndex = fold (\<lambda>t m. m(keyOf t \<mapsto> t)) existingIndex Map.empty"

definition bullets :: "string \<Rightarrow> string list" where
  "bullets s =
     map (\<lambda>line. trim (strip_tags line))
       (filter (\<lambda>line. startsWith (trim line) bullet) (split_on CHR 0x0A s))"

text \<open>
  The first sentence of the first message: \<^verbatim>\<open>/^[^.!?]*[.!?]/\<close> matches up to and including the
  first terminator when there is one; otherwise the first line is taken.
\<close>

definition first_sentence :: "string \<Rightarrow> string" where
  "first_sentence s =
     (if list_ex is_terminator s
      then trim (takeWhile (\<lambda>c. \<not> is_terminator c) s
                   @ take 1 (dropWhile (\<lambda>c. \<not> is_terminator c) s))
      else trim (hd (split_on CHR 0x0A s)))"

text \<open>The test "is this new or has it changed" of lines 186 to 190.\<close>

definition isChanged :: "thread option \<Rightarrow> chat \<Rightarrow> bool" where
  "isChanged existingThread c =
     (case existingThread of
        None \<Rightarrow> True
      | Some e \<Rightarrow>
          messageCount e \<noteq> chat_messageCount c
          \<or> lastMessageTimestamp e \<noteq> chat_lastMessageTimestamp c
          \<or> \<not> truthy (oneLineSummary e)
          \<or> \<not> truthy (paragraphSummary e))"

definition threadInfo :: "thread option \<Rightarrow> string \<Rightarrow> chat \<Rightarrow> thread" where
  "threadInfo existingThread projectName c =
     \<lparr> thread_id = chat_id c,
       project = projectName,
       date = modifiedTime c,
       firstSentence = first_sentence (firstMessage c),
       oneLineSummary =
         (case existingThread of None \<Rightarrow> None
          | Some e \<Rightarrow> js_or (oneLineSummary e) (oneLine e)),
       oneLine = None,
       bulletSummary =
         (case existingThread of None \<Rightarrow> Some (bullets (summary c))
          | Some e \<Rightarrow>
              (case bulletSummary e of Some b \<Rightarrow> Some b
               | None \<Rightarrow>
                   (case enhancedBullets e of Some b \<Rightarrow> Some b
                    | None \<Rightarrow> Some (bullets (summary c))))),
       enhancedBullets = None,
       paragraphSummary =
         (case existingThread of None \<Rightarrow> None
          | Some e \<Rightarrow> js_or (paragraphSummary e) (paragraph_field e)),
       paragraph_field = None,
       messageCount = chat_messageCount c,
       lastMessageTimestamp = chat_lastMessageTimestamp c,
       needsAnalysis = (if isChanged existingThread c then Some True else None),
       lastAnalyzed = None \<rparr>"

text \<open>
  The entries built in the two nested forEach loops, in the order of
  \<^verbatim>\<open>Object.entries(chatsByProject)\<close>, before the sort.
\<close>

definition builtIndex :: "thread list \<Rightarrow> (string \<times> chat list) list \<Rightarrow> thread list" where
  "builtIndex existingIndex chatsByProject =
     concat (map (\<lambda>(projectName, chats).
        map (\<lambda>c. threadInfo
                    (existingMap existingIndex (threadKey projectName (chat_id c)))
                    projectName c) chats) chatsByProject)"

text \<open>The sort by date, newest first; Array.prototype.sort is stable.\<close>

definition newIndex :: "thread list \<Rightarrow> (string \<times> chat list) list \<Rightarrow> thread list" where
  "newIndex existingIndex chatsByProject =
     sort_key (\<lambda>t. - date t) (builtIndex existingIndex chatsByProject)"

definition hasChanges :: "thread list \<Rightarrow> (string \<times> chat list) list \<Rightarrow> bool" where
  "hasChanges existingIndex chatsByProject =
     list_ex (\<lambda>(projectName, chats).
        list_ex (\<lambda>c. isChanged
                    (existingMap existingIndex (threadKey projectName (chat_id c))) c) chats)
       chatsByProject"

text \<open>Whether the file is written: the condition of line 205.\<close>

definition written :: "thread list \<Rightarrow> (string \<times> chat list) list \<Rightarrow> bool" where
  "written existingIndex chatsByProject =
     (hasChanges existingIndex chatsByProject
      \<or> length existingIndex \<noteq> length (newIndex existingIndex chatsByProject))"

text \<open>
  updateHistoryIndex as a function from the stored document (the empty list when the file is
  missing or does not parse) and the scan to the document stored afterwards.
\<close>

definition updateHistoryIndex :: "thread list \<Rightarrow> (string \<times> chat list) list \<Rightarrow> thread list" where
  "updateHistoryIndex existingIndex chatsByProject =
     (if written existingIndex chatsByProject
      then newIndex existingIndex chatsByProject
      else existingIndex)"

text \<open>The keys of the conversations of one scan, in the order they are visited.\<close>

definition observedKeys :: "(string \<times> chat list) list \<Rightarrow> string list" where
  "observedKeys chatsByProject =
     concat (map (\<lambda>(projectName, chats).
        map (\<lambda>c. threadKey projectName (chat_id c)) chats) chatsByProject)"

text \<open>The update runAnalysis makes to an entry it has analysed (lines 269 to 276).\<close>

definition analysed :: "thread \<Rightarrow> string \<Rightarrow> string \<Rightarrow> string list \<Rightarrow> string \<Rightarrow> thread" where
  "analysed t one par bul now =
     t\<lparr> oneLineSummary := Some one, paragraphSummary := Some par,
        bulletSummary := Some bul, lastAnalyzed := Some now, needsAnalysis := Some False \<rparr>"

section \<open>Parsed log lines and rendered messages\<close>

text \<open>
  A value as \<^verbatim>\<open>JSON.parse\<close> returns it. Of a number only whether it is zero is ever read.
  A property that is missing reads as \<^verbatim>\<open>undefined\<close>, which is \<open>None\<close> of \<open>json option\<close>.
\<close>

datatype json = JNull | JBool bool | JNum int | JStr string | JArr "json list"
  | JObj "(string \<times> json) list"

text \<open>
  A message as the chat page renders it (server.js, lines 537 to 650). \<open>htmlContent\<close> is
  \<open>None\<close> where the source stores \<^verbatim>\<open>null\<close>.
\<close>

record message =
  role :: string
  content :: string
  htmlContent :: "string option"
  timestamp :: "json option"
  model :: "json option"

section \<open>Exceptions and the built-in functions\<close>

text \<open>
  What a JavaScript expression can throw here: \<^verbatim>\<open>JSON.parse\<close> a SyntaxError, a property read
  of \<^verbatim>\<open>null\<close> or \<^verbatim>\<open>undefined\<close> or a call of a missing method a TypeError, the marked library
  an error of its own. A computation that may throw returns \<open>error + 'a\<close>, \<open>Inl\<close> the
  exception.
\<close>

datatype error = SyntaxError | TypeError | LibraryError

definition and_then :: "error + 'a \<Rightarrow> ('a \<Rightarrow> error + 'b) \<Rightarrow> error + 'b" where
  "and_then r f = (case r of Inl e \<Rightarrow> Inl e | Inr v \<Rightarrow> f v)"

text \<open>\<^verbatim>\<open>try { body } catch (e) { handler }\<close>.\<close>

definition try_catch :: "error + 'a \<Rightarrow> (error \<Rightarrow> error + 'a) \<Rightarrow> error + 'a" where
  "try_catch body handler = (case body of Inl e \<Rightarrow> handler e | Inr v \<Rightarrow> Inr v)"

text \<open>
  The functions the server calls and does not define: \<^verbatim>\<open>JSON.parse\<close>, \<^verbatim>\<open>JSON.stringify\<close> with
  and without indentation, \<^verbatim>\<open>marked\<close> on a string, and the conversion of a value that is not
  a string to a string in a concatenation or a template (which throws for an object whose
  \<^verbatim>\<open>toString\<close> is not callable). They are parameters of the model. In an object every key
  occurs once (\<^verbatim>\<open>JSON.parse\<close> keeps the last of equal keys).
\<close>

record builtins =
  JSON_parse :: "string \<Rightarrow> error + json"
  JSON_stringify :: "json \<Rightarrow> string"
  JSON_stringify_indent :: "json \<Rightarrow> string"
  marked :: "string \<Rightarrow> error + string"
  toStr :: "json option \<Rightarrow> error + string"

definition to_string :: "builtins \<Rightarrow> json option \<Rightarrow> error + string" where
  "to_string b v = (case v of Some (JStr s) \<Rightarrow> Inr s | _ \<Rightarrow> toStr b v)"

text \<open>\<^verbatim>\<open>marked(v)\<close>: the library throws unless it is given a string.\<close>

definition call_marked :: "builtins \<Rightarrow> json option \<Rightarrow> error + string" where
  "call_marked b v = (case v of Some (JStr s) \<Rightarrow> marked b s | _ \<Rightarrow> Inl LibraryError)"

text \<open>
  \<^verbatim>\<open>v.k\<close> for the property names the server reads (message, type, role, content, timestamp,
  model, text, name, input, file_path): \<^verbatim>\<open>null\<close> throws, an object gives its field, any other
  value gives \<^verbatim>\<open>undefined\<close>.
\<close>

definition get_prop :: "json \<Rightarrow> string \<Rightarrow> error + json option" where
  "get_prop v k =
     (case v of JNull \<Rightarrow> Inl TypeError | JObj kvs \<Rightarrow> Inr (map_of kvs k) | _ \<Rightarrow> Inr None)"

text \<open>The same for a value that may be \<^verbatim>\<open>undefined\<close>.\<close>

definition prop_of :: "json option \<Rightarrow> string \<Rightarrow> error + json option" where
  "prop_of v k = (case v of None \<Rightarrow> Inl TypeError | Some j \<Rightarrow> get_prop j k)"

definition js_truthy :: "json option \<Rightarrow> bool" where
  "js_truthy v =
     (case v of
        None \<Rightarrow> False
      | Some JNull \<Rightarrow> False
      | Some (JBool t) \<Rightarrow> t
      | Some (JNum n) \<Rightarrow> n \<noteq> 0
      | Some (JStr s) \<Rightarrow> s \<noteq> []
      | Some (JArr xs) \<Rightarrow> True
      | Some (JObj kvs) \<Rightarrow> True)"

text \<open>\<^verbatim>\<open>typeof v === 'string' ? v : JSON.stringify(v)\<close> for a value that is not undefined.\<close>

definition string_or_stringify :: "builtins \<Rightarrow> json \<Rightarrow> string" where
  "string_or_stringify b v = (case v of JStr s \<Rightarrow> s | _ \<Rightarrow> JSON_stringify b v)"

text \<open>The non-blank lines of a file: \<^verbatim>\<open>content.split('\n').filter(line => line.trim())\<close>.\<close>

definition nonblank_lines :: "string \<Rightarrow> string list" where
  "nonblank_lines s = filter (\<lambda>line. trim line \<noteq> []) (split_on CHR 0x0A s)"

section \<open>The chat page: one log line to one message (server.js, lines 527 to 660)\<close>

text \<open>The language of the fenced block, by file extension (the switch of lines 569 to 613).\<close>

definition file_language :: "string \<Rightarrow> string" where
  "file_language fileExt =
     (if fileExt = ''md'' \<or> fileExt = ''markdown'' then []
      else if fileExt = ''js'' \<or> fileExt = ''jsx'' then ''javascript''
      else if fileExt = ''ts'' \<or> fileExt = ''tsx'' then ''typescript''
      else if fileExt = ''py'' then ''python''
      else if fileExt = ''html'' then ''html''
      else if fileExt = ''css'' then ''css''
      else if fileExt = ''json'' then ''json''
      else if fileExt = ''yml'' \<or> fileExt = ''yaml'' then ''yaml''
      else if fileExt = ''xml'' then ''xml''
      else if fileExt = ''sql'' then ''sql''
      else if fileExt = ''sh'' \<or> fileExt = ''bash'' then ''bash''
      else ''text'')"

text \<open>
  The text added for a Write or Read tool call with a file path (lines 559 to 618):
  \<^verbatim>\<open>filePath.split\<close> throws when the path is not a string.
\<close>

definition file_section :: "builtins \<Rightarrow> json \<Rightarrow> error + string" where
  "file_section b input =
     and_then (get_prop input ''file_path'') (\<lambda>fp.
       (case fp of
          Some (JStr filePath) \<Rightarrow>
            and_then (get_prop input ''content'') (\<lambda>c.
              and_then (to_string b c) (\<lambda>content.
                (let fileExt = toLowerCase (last (split_on CHR ''.'' filePath));
                     fileName = last (split_on CHR ''/'' filePath);
                     heading = [CHR 0x0A] @ ''### '' @ fileName @ [CHR 0x0A, CHR 0x0A]
                 in if fileExt = ''md'' \<or> fileExt = ''markdown''
                    then Inr (heading @ ''---'' @ [CHR 0x0A, CHR 0x0A] @ content
                                @ [CHR 0x0A, CHR 0x0A] @ ''---'' @ [CHR 0x0A, CHR 0x0A])
                    else Inr (heading @ ''```'' @ file_language fileExt @ [CHR 0x0A] @ content
                                @ [CHR 0x0A] @ ''```'' @ [CHR 0x0A]))))
        | _ \<Rightarrow> Inl TypeError))"

text \<open>What one item of an assistant message's content array adds to textContent.\<close>

definition item_text :: "builtins \<Rightarrow> json \<Rightarrow> error + string" where
  "item_text b item =
     and_then (get_prop item ''type'') (\<lambda>ty.
       if ty = Some (JStr ''text'') then
         and_then (get_prop item ''text'') (\<lambda>t.
           and_then (to_string b t) (\<lambda>s. Inr (s @ [CHR 0x0A])))
       else if ty = Some (JStr ''tool_use'') then
         and_then (get_prop item ''name'') (\<lambda>name.
           and_then (to_string b name) (\<lambda>ns.
             and_then (get_prop item ''input'') (\<lambda>input.
               (let call = [CHR 0x0A] @ ''**Tool Call: '' @ ns @ ''**'' @ [CHR 0x0A]
                in if js_truthy input then
                     and_then (prop_of input ''file_path'') (\<lambda>fp.
                       and_then (prop_of input ''content'') (\<lambda>c.
                         if (name = Some (JStr ''Write'') \<and> js_truthy fp \<and> js_truthy c)
                            \<or> (name = Some (JStr ''Read'') \<and> js_truthy fp)
                         then and_then (file_section b (case input of Some i \<Rightarrow> i | None \<Rightarrow> JNull))
                                (\<lambda>sec. Inr (call @ sec))
                         else Inr (call @ ''```json'' @ [CHR 0x0A]
                                @ JSON_stringify_indent b
                                    (case input of Some i \<Rightarrow> i | None \<Rightarrow> JNull)
                                @ [CHR 0x0A] @ ''```'' @ [CHR 0x0A])))
                   else Inr call))))
       else Inr [])"

text \<open>The forEach over the content array: the first exception ends it.\<close>

fun items_text :: "builtins \<Rightarrow> json list \<Rightarrow> string \<Rightarrow> error + string" where
  "items_text b [] textContent = Inr textContent"
| "items_text b (item # items) textContent =
     and_then (item_text b item) (\<lambda>s. items_text b items (textContent @ s))"

text \<open>The body of the try block for a parsed entry: a message, or \<^verbatim>\<open>null\<close>.\<close>

definition tool_result_message :: "builtins \<Rightarrow> json \<Rightarrow> error + message option" where
  "tool_result_message b entry =
     and_then (get_prop entry ''type'') (\<lambda>ty.
       and_then (get_prop entry ''content'') (\<lambda>ec.
         and_then (get_prop entry ''timestamp'') (\<lambda>ts.
           if ty = Some (JStr ''tool_result'') \<and> js_truthy ec then
             (let c = string_or_stringify b (case ec of Some v \<Rightarrow> v | None \<Rightarrow> JNull)
              in if c \<noteq> [] then
                   and_then (marked b (''```'' @ [CHR 0x0A] @ c @ [CHR 0x0A] @ ''```'')) (\<lambda>h.
                     Inr (Some \<lparr> role = ''tool_result'', content = c, htmlContent = Some h,
                                  timestamp = ts, model = None \<rparr>))
                 else Inr (Some \<lparr> role = ''tool_result'', content = c, htmlContent = None,
                                    timestamp = ts, model = None \<rparr>))
           else Inr None)))"

definition normalize_entry :: "builtins \<Rightarrow> json \<Rightarrow> error + message option" where
  "normalize_entry b entry =
     and_then (get_prop entry ''message'') (\<lambda>m.
       if js_truthy m then
         and_then (get_prop entry ''type'') (\<lambda>ty.
           and_then (prop_of m ''role'') (\<lambda>r.
             and_then (prop_of m ''content'') (\<lambda>c.
               and_then (get_prop entry ''timestamp'') (\<lambda>ts.
                 if ty = Some (JStr ''user'') \<and> r = Some (JStr ''user'') then
                   (if js_truthy c then
                      and_then (call_marked b c) (\<lambda>h.
                        Inr (Some \<lparr> role = ''user'',
                                     content = (case c of Some (JStr s) \<Rightarrow> s | _ \<Rightarrow> []),
                                     htmlContent = Some h, timestamp = ts, model = None \<rparr>))
                    else Inr (Some \<lparr> role = ''user'', content = [], htmlContent = None,
                                       timestamp = ts, model = None \<rparr>))
                 else if ty = Some (JStr ''assistant'') \<and> r = Some (JStr ''assistant'') then
                   and_then
                     (case c of
                        Some (JArr items) \<Rightarrow> items_text b items []
                      | Some (JStr s) \<Rightarrow> Inr s
                      | _ \<Rightarrow> Inr [])
                     (\<lambda>textContent.
                        and_then (prop_of m ''model'') (\<lambda>mo.
                          if textContent \<noteq> [] then
                            and_then (marked b (trim textContent)) (\<lambda>h.
                              Inr (Some \<lparr> role = ''assistant'', content = trim textContent,
                                           htmlContent = Some h, timestamp = ts, model = mo \<rparr>))
                          else Inr (Some \<lparr> role = ''assistant'', content = trim textContent,
                                             htmlContent = None, timestamp = ts, model = mo \<rparr>)))
                 else tool_result_message b entry))))
       else tool_result_message b entry)"

text \<open>One line: the try block with its catch, which logs the error and returns \<^verbatim>\<open>null\<close>.\<close>

definition normalize_line :: "builtins \<Rightarrow> string \<Rightarrow> error + message option" where
  "normalize_line b line =
     try_catch (and_then (JSON_parse b line) (normalize_entry b)) (\<lambda>e. Inr None)"

text \<open>\<^verbatim>\<open>lines.map(...).filter(msg => msg !== null)\<close>: an exception of one line would end the map.\<close>

fun parse_lines :: "builtins \<Rightarrow> string list \<Rightarrow> error + message list" where
  "parse_lines b [] = Inr []"
| "parse_lines b (line # lines) =
     and_then (normalize_line b line) (\<lambda>m.
       and_then (parse_lines b lines) (\<lambda>ms.
         Inr (case m of None \<Rightarrow> ms | Some x \<Rightarrow> x # ms)))"

section \<open>The home page: the messages of one log file (server.js, lines 343 to 396)\<close>

text \<open>What one line adds: a user message, a text pushed to assistantMessages, or nothing.\<close>

datatype extracted = UserMessage json | AssistantMessage string | Nothing

text \<open>What one item of an assistant message's content array adds to textContent.\<close>

definition summary_item_text :: "builtins \<Rightarrow> json \<Rightarrow> error + string" where
  "summary_item_text b item =
     and_then (get_prop item ''type'') (\<lambda>ty.
       if ty = Some (JStr ''text'') then
         and_then (get_prop item ''text'') (\<lambda>t.
           and_then (to_string b t) (\<lambda>s. Inr (s @ '' '')))
       else if ty = Some (JStr ''tool_use'') then
         and_then (get_prop item ''name'') (\<lambda>name.
           and_then (to_string b name) (\<lambda>ns.
             and_then (get_prop item ''input'') (\<lambda>input.
               Inr (''Tool: '' @ ns @ '' ''
                    @ (case input of
                         None \<Rightarrow> []
                       | Some i \<Rightarrow>
                           if js_truthy input then JSON_stringify b i @ '' '' else [])))))
       else if ty = Some (JStr ''tool_result'') then
         and_then (get_prop item ''content'') (\<lambda>c.
           Inr (case c of
                  None \<Rightarrow> []
                | Some v \<Rightarrow> if js_truthy c then JSON_stringify b v @ '' '' else []))
       else Inr (JSON_stringify b item @ '' ''))"

fun summary_items_text :: "builtins \<Rightarrow> json list \<Rightarrow> string \<Rightarrow> error + string" where
  "summary_items_text b [] textContent = Inr textContent"
| "summary_items_text b (item # items) textContent =
     and_then (summary_item_text b item) (\<lambda>s. summary_items_text b items (textContent @ s))"

text \<open>The body of the try block for a parsed entry.\<close>

definition extract_entry :: "builtins \<Rightarrow> json \<Rightarrow> error + extracted" where
  "extract_entry b entry =
     and_then (get_prop entry ''type'') (\<lambda>ty.
       and_then (get_prop entry ''message'') (\<lambda>m.
         and_then (if js_truthy m then prop_of m ''role'' else Inr None) (\<lambda>r.
           and_then (if js_truthy m then prop_of m ''content'' else Inr None) (\<lambda>c.
             if ty = Some (JStr ''user'') \<and> js_truthy m \<and> r = Some (JStr ''user'') then
               Inr (UserMessage (if js_truthy c then (case c of Some v \<Rightarrow> v | None \<Rightarrow> JStr [])
                                 else JStr []))
             else if ty = Some (JStr ''assistant'') \<and> js_truthy m
                       \<and> r = Some (JStr ''assistant'') then
               and_then
                 (case c of
                    Some (JArr items) \<Rightarrow> summary_items_text b items []
                  | Some (JStr s) \<Rightarrow> Inr s
                  | _ \<Rightarrow> Inr [])
                 (\<lambda>textContent.
                    Inr (if trim textContent \<noteq> [] then AssistantMessage (trim textContent)
                         else Nothing))
             else if ty = Some (JStr ''tool_result'') \<or> ty = Some (JStr ''system'') then
               and_then (get_prop entry ''content'') (\<lambda>ec.
                 (let content =
                        (if js_truthy ec
                         then string_or_stringify b (case ec of Some v \<Rightarrow> v | None \<Rightarrow> JNull)
                         else if js_truthy m \<and> js_truthy c
                         then string_or_stringify b (case c of Some v \<Rightarrow> v | None \<Rightarrow> JNull)
                         else [])
                  in Inr (if trim content \<noteq> [] then AssistantMessage (trim content)
                          else Nothing)))
             else Inr Nothing))))"

text \<open>One line: the try block with its catch, which goes on to the next line.\<close>

definition extract_line :: "builtins \<Rightarrow> string \<Rightarrow> error + extracted" where
  "extract_line b line =
     try_catch (and_then (JSON_parse b line) (extract_entry b)) (\<lambda>e. Inr Nothing)"

text \<open>
  The state of the loop: userMessages, assistantMessages and firstUserMessage (the empty
  string at the start, set by the first user message while it is falsy).
\<close>

record collected =
  userMessages :: "json list"
  assistantMessages :: "string list"
  firstUserMessage :: json

definition push_extracted :: "extracted \<Rightarrow> collected \<Rightarrow> collected" where
  "push_extracted x st =
     (case x of
        UserMessage c \<Rightarrow>
          st\<lparr> userMessages := userMessages st @ [c],
              firstUserMessage :=
                (if js_truthy (Some (firstUserMessage st)) then firstUserMessage st else c) \<rparr>
      | AssistantMessage s \<Rightarrow> st\<lparr> assistantMessages := assistantMessages st @ [s] \<rparr>
      | Nothing \<Rightarrow> st)"

fun collect_lines :: "builtins \<Rightarrow> string list \<Rightarrow> collected \<Rightarrow> error + collected" where
  "collect_lines b [] st = Inr st"
| "collect_lines b (line # lines) st =
     and_then (extract_line b line) (\<lambda>x. collect_lines b lines (push_extracted x st))"

definition collect_messages :: "builtins \<Rightarrow> string list \<Rightarrow> error + collected" where
  "collect_messages b lines =
     collect_lines b lines
       \<lparr> userMessages = [], assistantMessages = [], firstUserMessage = JStr [] \<rparr>"

text \<open>What each line of the file gives, line by line.\<close>

definition extracted_of :: "builtins \<Rightarrow> string list \<Rightarrow> extracted list" where
  "extracted_of b lines =
     map (\<lambda>line. case extract_line b line of Inl e \<Rightarrow> Nothing | Inr x \<Rightarrow> x) lines"

definition users_of :: "extracted list \<Rightarrow> json list" where
  "users_of xs = concat (map (\<lambda>x. case x of UserMessage c \<Rightarrow> [c] | _ \<Rightarrow> []) xs)"

definition assistants_of :: "extracted list \<Rightarrow> string list" where
  "assistants_of xs = concat (map (\<lambda>x. case x of AssistantMessage s \<Rightarrow> [s] | _ \<Rightarrow> []) xs)"

text \<open>The contents of the messages in the order of the lines they come from.\<close>

definition line_contents :: "extracted list \<Rightarrow> json list" where
  "line_contents xs =
     concat (map (\<lambda>x. case x of UserMessage c \<Rightarrow> [c] | AssistantMessage s \<Rightarrow> [JStr s]
                        | Nothing \<Rightarrow> []) xs)"

definition in_line_order :: "builtins \<Rightarrow> string list \<Rightarrow> json list" where
  "in_line_order b lines = line_contents (extracted_of b lines)"

text \<open>
  A log in which user and assistant messages take turns; the flag says whether a user
  message is due next.
\<close>

fun alternating_from :: "bool \<Rightarrow> extracted list \<Rightarrow> bool" where
  "alternating_from u [] = True"
| "alternating_from u (Nothing # xs) = alternating_from u xs"
| "alternating_from u (UserMessage c # xs) = (u \<and> alternating_from False xs)"
| "alternating_from u (AssistantMessage s # xs) = (\<not> u \<and> alternating_from True xs)"

section \<open>The Tier-1 summary (server.js, generateChatSummary)\<close>

record indexed_message =
  msg_content :: json
  msg_index :: nat
  msg_type :: string

text \<open>
  Lines 21 to 24: the user messages get the even indices, the assistant messages the odd
  ones, and the list is sorted by index.
\<close>

definition allMessages :: "json list \<Rightarrow> string list \<Rightarrow> indexed_message list" where
  "allMessages us as =
     sort_key msg_index
       (map (\<lambda>(idx, msg). \<lparr> msg_content = msg, msg_index = idx * 2, msg_type = ''user'' \<rparr>)
            (enumerate 0 us)
        @ map (\<lambda>(idx, msg). \<lparr> msg_content = JStr msg, msg_index = idx * 2 + 1,
                               msg_type = ''assistant'' \<rparr>)
            (enumerate 0 as))"

text \<open>\<^verbatim>\<open>typeof msg.content === 'string' ? msg.content : ''\<close>.\<close>

definition msg_text :: "indexed_message \<Rightarrow> string" where
  "msg_text m = (case msg_content m of JStr s \<Rightarrow> s | _ \<Rightarrow> [])"

text \<open>\<^verbatim>\<open>allMessages.map(m => m.content).join(' ').toLowerCase()\<close>; the join converts each content.\<close>

fun contents_strings :: "builtins \<Rightarrow> indexed_message list \<Rightarrow> error + string list" where
  "contents_strings b [] = Inr []"
| "contents_strings b (m # ms) =
     and_then (to_string b (Some (msg_content m))) (\<lambda>s.
       and_then (contents_strings b ms) (\<lambda>ss. Inr (s # ss)))"

definition allText :: "builtins \<Rightarrow> indexed_message list \<Rightarrow> error + string" where
  "allText b msgs =
     and_then (contents_strings b msgs) (\<lambda>ss. Inr (toLowerCase (join '' '' ss)))"

definition verbs :: "string list" where
  "verbs = [''created'', ''built'', ''implemented'', ''added'', ''fixed'', ''updated'',
     ''installed'', ''configured'', ''deployed'', ''setup'', ''wrote'', ''designed'',
     ''developed'', ''optimized'', ''refactored'', ''debugged'', ''resolved'', ''completed'']"

text \<open>
  One attempt of \<^verbatim>\<open>new RegExp(verb + '\\s+([^.!?]+)', 'g')\<close> at the start of a string: the verb,
  then white space, then the captured group, which runs up to the next terminator. When a
  terminator or the end follows the white space directly, the pattern still matches if there
  are two white-space characters or more, and the group is the last of them. The result is
  the group and the length of the whole match.
\<close>

definition match_verb :: "string \<Rightarrow> string \<Rightarrow> (string \<times> nat) option" where
  "match_verb verb s =
     (if startsWith s verb then
        (let rest = drop (length verb) s;
             ws = takeWhile is_space rest;
             g = takeWhile (\<lambda>c. \<not> is_terminator c) (dropWhile is_space rest)
         in if ws = [] then None
            else if g \<noteq> [] then Some (g, length verb + length ws + length g)
            else if 2 \<le> length ws then Some ([last ws], length verb + length ws)
            else None)
      else None)"

text \<open>
  The groups of the successive \<^verbatim>\<open>exec\<close> calls on one message: matches from left to right, each
  search starting where the last match ended.
\<close>

fun captures_from :: "string \<Rightarrow> nat \<Rightarrow> string \<Rightarrow> string list" where
  "captures_from verb k [] = []"
| "captures_from verb (Suc k) (c # cs) = captures_from verb k cs"
| "captures_from verb 0 (c # cs) =
     (case match_verb verb (c # cs) of
        None \<Rightarrow> captures_from verb 0 cs
      | Some (cap, len) \<Rightarrow> cap # captures_from verb (len - 1) cs)"

text \<open>\<^verbatim>\<open>replace(/\s+/g, ' ')\<close>; the flag says whether the last character was white space.\<close>

fun collapse_spaces :: "bool \<Rightarrow> string \<Rightarrow> string" where
  "collapse_spaces p [] = []"
| "collapse_spaces p (c # cs) =
     (if is_space c then (if p then collapse_spaces True cs else CHR '' '' # collapse_spaces True cs)
      else c # collapse_spaces False cs)"

definition is_alnum :: "char \<Rightarrow> bool" where
  "is_alnum c = (c \<in> set ''abcdefghijklmnopqrstuvwxyzABCDEFGHIJKLMNOPQRSTUVWXYZ0123456789'')"

text \<open>Lines 61 to 64: white space collapsed, then every character but letters, digits and
  white space removed, then trimmed.\<close>

definition cleaned :: "string \<Rightarrow> string" where
  "cleaned accomplishment =
     trim (filter (\<lambda>c. is_alnum c \<or> is_space c) (collapse_spaces False accomplishment))"

text \<open>\<^verbatim>\<open>s.includes(sub)\<close>.\<close>

fun includes_str :: "string \<Rightarrow> string \<Rightarrow> bool" where
  "includes_str [] sub = (sub = [])"
| "includes_str (c # cs) sub = (startsWith (c # cs) sub \<or> includes_str cs sub)"

record accomplishment =
  acc_text :: string
  acc_messageIndex :: nat
  acc_anchorId :: string

definition anchorId_of :: "nat \<Rightarrow> string" where
  "anchorId_of idx = ''msg-'' @ show_nat idx"

text \<open>
  One turn of the while loop of lines 58 to 74 for a match with group \<open>cap\<close> in the message
  of index \<open>idx\<close>; the loop ends once five accomplishments are collected.
\<close>

definition consider_capture :: "accomplishment list \<Rightarrow> nat \<Rightarrow> string \<Rightarrow> accomplishment list" where
  "consider_capture accomplishments idx cap =
     (if length accomplishments < 5 then
        (let accomplishment = trim cap
         in if 10 < length accomplishment \<and> length accomplishment < 100 then
              (let cl = cleaned accomplishment
               in if cl \<noteq> []
                     \<and> \<not> list_ex (\<lambda>a. includes_str (acc_text a) (take 20 cl)) accomplishments
                  then accomplishments
                         @ [\<lparr> acc_text = cl, acc_messageIndex = idx,
                               acc_anchorId = anchorId_of idx \<rparr>]
                  else accomplishments)
            else accomplishments)
      else accomplishments)"

definition scan_message ::
  "string \<Rightarrow> indexed_message \<Rightarrow> accomplishment list \<Rightarrow> accomplishment list" where
  "scan_message verb msg accomplishments =
     fold (\<lambda>cap accs. consider_capture accs (msg_index msg) cap)
       (captures_from verb 0 (toLowerCase (msg_text msg))) accomplishments"

text \<open>Lines 51 to 76: for each verb, for each message.\<close>

definition action_phase :: "indexed_message list \<Rightarrow> accomplishment list" where
  "action_phase msgs =
     fold (\<lambda>verb accs. fold (scan_message verb) msgs accs) verbs []"

text \<open>
  Lines 79 to 96. The file pattern
  \<^verbatim>\<open>/\b[\w-]+\.(js|py|html|css|json|md|txt|yml|yaml|xml|sql|sh|bat|ejs|ts|tsx|jsx)\b/g\<close>
  matches, at a word boundary, the longest run of word characters and hyphens, a dot, and an
  extension of the list that ends at a word boundary.
\<close>

definition is_word_char :: "char \<Rightarrow> bool" where
  "is_word_char c = (is_alnum c \<or> c = CHR ''_'')"

definition file_extensions :: "string list" where
  "file_extensions = [''js'', ''py'', ''html'', ''css'', ''json'', ''md'', ''txt'', ''yml'',
     ''yaml'', ''xml'', ''sql'', ''sh'', ''bat'', ''ejs'', ''ts'', ''tsx'', ''jsx'']"

text \<open>One attempt at the start of a string; \<open>pw\<close> says whether the character before is a word character.\<close>

definition file_match_at :: "bool \<Rightarrow> string \<Rightarrow> string option" where
  "file_match_at pw s =
     (case s of
        [] \<Rightarrow> None
      | c # cs \<Rightarrow>
          (let name = takeWhile (\<lambda>x. is_word_char x \<or> x = CHR ''-'') s;
               rest = dropWhile (\<lambda>x. is_word_char x \<or> x = CHR ''-'') s
           in if pw = is_word_char c \<or> name = [] then None
              else
                (case rest of
                   [] \<Rightarrow> None
                 | d # after \<Rightarrow>
                     if d = CHR ''.'' \<and> takeWhile is_word_char after \<in> set file_extensions
                     then Some (name @ ''.'' @ takeWhile is_word_char after)
                     else None)))"

fun file_matches_from :: "bool \<Rightarrow> nat \<Rightarrow> string \<Rightarrow> string list" where
  "file_matches_from pw k [] = []"
| "file_matches_from pw (Suc k) (c # cs) = file_matches_from (is_word_char c) k cs"
| "file_matches_from pw 0 (c # cs) =
     (case file_match_at pw (c # cs) of
        None \<Rightarrow> file_matches_from (is_word_char c) 0 cs
      | Some m \<Rightarrow> m # file_matches_from (is_word_char c) (length m - 1) cs)"

text \<open>\<^verbatim>\<open>[...new Set(xs)]\<close>: each value once, at its first place.\<close>

definition unique_values :: "string list \<Rightarrow> string list" where
  "unique_values xs = fold (\<lambda>x seen. if x \<in> set seen then seen else seen @ [x]) xs []"

definition file_phase ::
  "string \<Rightarrow> indexed_message list \<Rightarrow> accomplishment list \<Rightarrow> accomplishment list" where
  "file_phase text msgs accomplishments =
     (let fileMatches = file_matches_from False 0 text
      in if fileMatches \<noteq> [] \<and> length accomplishments < 3 then
           fold (\<lambda>file accs.
                   (case find (\<lambda>m. includes_str (toLowerCase (msg_text m)) file) msgs of
                      None \<Rightarrow> accs
                    | Some m \<Rightarrow>
                        accs @ [\<lparr> acc_text = ''worked on '' @ file,
                                   acc_messageIndex = msg_index m,
                                   acc_anchorId = anchorId_of (msg_index m) \<rparr>]))
             (take 2 (unique_values fileMatches)) accomplishments
         else accomplishments)"

record anchor =
  anchor_id :: string
  anchor_messageIndex :: nat

definition bullet_link :: "string \<Rightarrow> accomplishment \<Rightarrow> string" where
  "bullet_link chatId item =
     bullet @ '' <a href=\"/chat/'' @ chatId @ ''#'' @ acc_anchorId item
       @ ''\" class=\"summary-link\">'' @ acc_text item @ ''</a>''"

record summary_result =
  summary_text :: string
  anchors :: "anchor list"

text \<open>The accomplishments of a conversation: the verbs first, then the files.\<close>

definition accomplishments_of :: "string \<Rightarrow> indexed_message list \<Rightarrow> accomplishment list" where
  "accomplishments_of text msgs = file_phase text msgs (action_phase msgs)"

definition generateChatSummary ::
  "builtins \<Rightarrow> json list \<Rightarrow> string list \<Rightarrow> json \<Rightarrow> string \<Rightarrow> error + summary_result" where
  "generateChatSummary b us as first chatId =
     (if us = [] then Inr \<lparr> summary_text = ''Empty conversation'', anchors = [] \<rparr>
      else
        and_then (allText b (allMessages us as)) (\<lambda>text.
          (let accomplishments = accomplishments_of text (allMessages us as)
           in if accomplishments \<noteq> [] then
                Inr \<lparr> summary_text =
                        join [CHR 0x0A] (map (bullet_link chatId) (take 3 accomplishments)),
                      anchors =
                        map (\<lambda>item. \<lparr> anchor_id = acc_anchorId item,
                                       anchor_messageIndex = acc_messageIndex item \<rparr>)
                          (take 3 accomplishments) \<rparr>
              else
                Inr \<lparr> summary_text =
                        bullet @ '' '' @ show_nat (length us) @ '' message conversation'',
                      anchors = [] \<rparr>)))"

text \<open>The summary of a log file as the home page computes it.\<close>

definition summarize_lines :: "builtins \<Rightarrow> string list \<Rightarrow> string \<Rightarrow> error + summary_result" where
  "summarize_lines b lines chatId =
     and_then (collect_messages b lines) (\<lambda>st.
       generateChatSummary b (userMessages st) (assistantMessages st) (firstUserMessage st)
         chatId)"

section \<open>Search terms as regular expressions\<close>

text \<open>The syntax characters of a pattern: \<^verbatim>\<open>. * + ? ^ $ { } ( ) | [ ]\<close> and the backslash.\<close>

definition is_syntax_char :: "char \<Rightarrow> bool" where
  "is_syntax_char c = (c \<in> set ''.*+?^${}()|[]'' \<or> c = CHR 0x5C)"

text \<open>
  server.js, line 670: \<^verbatim>\<open>searchTerm.replace(/[.*+?^${}()|[\]\\]/g, '\\$&')\<close> puts a backslash
  before every syntax character.
\<close>

definition escape_term :: "string \<Rightarrow> string" where
  "escape_term s = concat (map (\<lambda>c. if is_syntax_char c then [CHR 0x5C, c] else [c]) s)"

text \<open>
  The find script, function escapeRegex:
  \<^verbatim>\<open>string.replace(/[.*+?^${}()|[\\]\\]/g, '\\\\$&')\<close>. As written, the character class ends at
  the first \<^verbatim>\<open>]\<close> and is followed by a backslash and a \<^verbatim>\<open>]\<close>: the pattern matches three
  characters, one of \<^verbatim>\<open>. * + ? ^ $ { } ( ) | [\<close> or a backslash, then a backslash, then
  \<^verbatim>\<open>]\<close>; the replacement is two backslashes and the match.
\<close>

definition in_escapeRegex_class :: "char \<Rightarrow> bool" where
  "in_escapeRegex_class c = (c \<in> set ''.*+?^${}()|['' \<or> c = CHR 0x5C)"

fun escapeRegex :: "string \<Rightarrow> string" where
  "escapeRegex (a # b # c # rest) =
     (if in_escapeRegex_class a \<and> b = CHR 0x5C \<and> c = CHR '']''
      then [CHR 0x5C, CHR 0x5C, a, b, c] @ escapeRegex rest
      else a # escapeRegex (b # c # rest))"
| "escapeRegex s = s"

text \<open>
  The patterns interpreted here are sequences of ordinary characters, escaped syntax
  characters and dots; with the flags \<^verbatim>\<open>gi\<close> an ordinary character matches its two cases and
  a dot matches any character but a line end. \<open>seq_atoms\<close> is \<open>None\<close> on every other pattern
  (an operator this model does not interpret, or a syntax error, on which
  \<^verbatim>\<open>new RegExp\<close> throws).
\<close>

datatype atom = Lit char | AnyChar

fun seq_atoms :: "string \<Rightarrow> atom list option" where
  "seq_atoms [] = Some []"
| "seq_atoms (c # cs) =
     (if c = CHR 0x5C then
        (case cs of
           [] \<Rightarrow> None
         | d # ds \<Rightarrow>
             if is_syntax_char d then map_option (Cons (Lit d)) (seq_atoms ds) else None)
      else if c = CHR ''.'' then map_option (Cons AnyChar) (seq_atoms cs)
      else if is_syntax_char c then None
      else map_option (Cons (Lit c)) (seq_atoms cs))"

text \<open>A pattern wrapped in one capture group, \<^verbatim>\<open>(...)\<close>, matches what its body matches.\<close>

definition regex_atoms :: "string \<Rightarrow> atom list option" where
  "regex_atoms src =
     (case src of
        [] \<Rightarrow> Some []
      | c # rest \<Rightarrow>
          if c = CHR ''('' then
            (if rest \<noteq> [] \<and> last rest = CHR '')'' then seq_atoms (butlast rest) else None)
          else seq_atoms src)"

definition atom_matches :: "atom \<Rightarrow> char \<Rightarrow> bool" where
  "atom_matches a c =
     (case a of
        Lit d \<Rightarrow> toUpperCase_char d = toUpperCase_char c
      | AnyChar \<Rightarrow> c \<noteq> CHR 0x0A \<and> c \<noteq> CHR 0x0D)"

fun matches_at :: "atom list \<Rightarrow> string \<Rightarrow> bool" where
  "matches_at [] s = True"
| "matches_at (a # as) [] = False"
| "matches_at (a # as) (c # cs) = (atom_matches a c \<and> matches_at as cs)"

text \<open>
  \<^verbatim>\<open>text.match(regex)\<close> with the flag \<^verbatim>\<open>g\<close>: the matches are found from left to right and do
  not overlap. The number counts the characters of the current match still to be skipped.
  The atom list is never empty here, since the search term is not.
\<close>

fun count_from :: "atom list \<Rightarrow> nat \<Rightarrow> string \<Rightarrow> nat" where
  "count_from as k [] = 0"
| "count_from as (Suc k) (c # cs) = count_from as k cs"
| "count_from as 0 (c # cs) =
     (if matches_at as (c # cs) then Suc (count_from as (length as - 1) cs)
      else count_from as 0 cs)"

section \<open>The find script: countMatches, performFind, sortByMatches\<close>

definition countMatches :: "string \<Rightarrow> string \<Rightarrow> nat option" where
  "countMatches text searchTerm =
     (if searchTerm = [] then Some 0
      else map_option (\<lambda>as. count_from as 0 text) (regex_atoms (escapeRegex searchTerm)))"

text \<open>A chat card of the home page: its data attributes, the message count already parsed.\<close>

record chat_card =
  card_name :: string
  searchable :: string
  card_messageCount :: nat

record find_result =
  result_card :: chat_card
  matches :: nat

text \<open>The forEach of lines 449 to 490: the results in the order the cards are met.\<close>

fun find_results :: "nat \<Rightarrow> string \<Rightarrow> chat_card list \<Rightarrow> find_result list option" where
  "find_results currentMinMessages searchLower [] = Some []"
| "find_results currentMinMessages searchLower (c # cs) =
     (if card_messageCount c \<le> currentMinMessages
      then find_results currentMinMessages searchLower cs
      else
        (case countMatches (toLowerCase (searchable c)) searchLower of
           None \<Rightarrow> None
         | Some n \<Rightarrow>
             (case find_results currentMinMessages searchLower cs of
                None \<Rightarrow> None
              | Some rs \<Rightarrow>
                  Some (if n > 0 then \<lparr> result_card = c, matches = n \<rparr> # rs else rs))))"

text \<open>\<^verbatim>\<open>results.sort((a, b) => b.matches - a.matches)\<close>; the sort is stable.\<close>

definition sortByMatches :: "find_result list \<Rightarrow> find_result list" where
  "sortByMatches results = sort_key (\<lambda>r. - int (matches r)) results"

text \<open>
  performFind with a search term: the ranked results. With the empty term nothing is ranked
  and the original order is restored; the model returns no results then.
\<close>

definition performFind :: "nat \<Rightarrow> chat_card list \<Rightarrow> string \<Rightarrow> find_result list option" where
  "performFind currentMinMessages chatCards searchTerm =
     (if searchTerm = [] then Some []
      else map_option sortByMatches
             (find_results currentMinMessages (toLowerCase searchTerm) chatCards))"

text \<open>
  The count the specification asks for: the occurrences of the term itself, compared without
  regard to case, found from left to right without overlap.
\<close>

definition literal_count :: "string \<Rightarrow> string \<Rightarrow> nat" where
  "literal_count text searchTerm = count_from (map Lit searchTerm) 0 text"

section \<open>Highlighting (server.js, highlightSearchTerm)\<close>

text \<open>
  The result of \<^verbatim>\<open>line.replace(regex, callback)\<close> before it is joined into one string: the
  characters left as they are, and the matches the callback wrapped, each with the value
  the counter had after its increment.
\<close>

datatype piece = Plain char | Anchor nat string

definition render_piece :: "piece \<Rightarrow> string" where
  "render_piece p =
     (case p of
        Plain c \<Rightarrow> [c]
      | Anchor n m \<Rightarrow>
          ''<a id=\"search_'' @ show_nat n @ ''\" class=\"search-highlight\">'' @ m @ ''</a>'')"

definition render_line :: "piece list \<Rightarrow> string" where
  "render_line ps = concat (map render_piece ps)"

definition render_lines :: "piece list list \<Rightarrow> string" where
  "render_lines pss = join [CHR 0x0A] (map render_line pss)"

text \<open>The text a piece stands for in the line it came from.\<close>

definition piece_text :: "piece \<Rightarrow> string" where
  "piece_text p = (case p of Plain c \<Rightarrow> [c] | Anchor n m \<Rightarrow> m)"

definition anchor_ids :: "piece list \<Rightarrow> nat list" where
  "anchor_ids ps = concat (map (\<lambda>p. case p of Plain c \<Rightarrow> [] | Anchor n m \<Rightarrow> [n]) ps)"

text \<open>
  The replace of one line: matches from left to right, not overlapping; the first number
  counts the characters of the current match still to be skipped, the second is
  globalSearchCounter.
\<close>

fun replace_from :: "atom list \<Rightarrow> nat \<Rightarrow> string \<Rightarrow> nat \<Rightarrow> piece list \<times> nat" where
  "replace_from as k [] n = ([], n)"
| "replace_from as (Suc k) (c # cs) n = replace_from as k cs n"
| "replace_from as 0 (c # cs) n =
     (if matches_at as (c # cs)
      then (case replace_from as (length as - 1) cs (Suc n) of
              (ps, n') \<Rightarrow> (Anchor (Suc n) (take (length as) (c # cs)) # ps, n'))
      else (case replace_from as 0 cs n of (ps, n') \<Rightarrow> (Plain c # ps, n')))"

definition is_heading_line :: "string \<Rightarrow> bool" where
  "is_heading_line line = startsWith (trim line) ''### ''"

definition highlight_line :: "atom list \<Rightarrow> string \<Rightarrow> nat \<Rightarrow> piece list \<times> nat" where
  "highlight_line as line n =
     (if is_heading_line line then (map Plain line, n) else replace_from as 0 line n)"

fun highlight_lines :: "atom list \<Rightarrow> string list \<Rightarrow> nat \<Rightarrow> piece list list \<times> nat" where
  "highlight_lines as [] n = ([], n)"
| "highlight_lines as (l # ls) n =
     (case highlight_line as l n of
        (ps, n1) \<Rightarrow>
          (case highlight_lines as ls n1 of (pss, n2) \<Rightarrow> (ps # pss, n2)))"

text \<open>
  highlightSearchTerm, first as lines of pieces. With an empty term or text the text comes
  back as it is. The value is \<open>None\<close> only if the pattern were not one \<open>regex_atoms\<close>
  interprets, which does not happen for an escaped term.
\<close>

definition highlight_pieces :: "string \<Rightarrow> string \<Rightarrow> nat \<Rightarrow> (piece list list \<times> nat) option" where
  "highlight_pieces text searchTerm n =
     (if searchTerm = [] \<or> text = [] then Some (map (map Plain) (split_on CHR 0x0A text), n)
      else
        (case regex_atoms (''('' @ escape_term searchTerm @ '')'') of
           None \<Rightarrow> None
         | Some as \<Rightarrow> Some (highlight_lines as (split_on CHR 0x0A text) n)))"

text \<open>highlightSearchTerm: the new text and the new value of globalSearchCounter.\<close>

definition highlightSearchTerm :: "string \<Rightarrow> string \<Rightarrow> nat \<Rightarrow> (string \<times> nat) option" where
  "highlightSearchTerm text searchTerm n =
     map_option (\<lambda>(pss, n'). (render_lines pss, n')) (highlight_pieces text searchTerm n)"

text \<open>
  The forEach of lines 689 to 697, run when the search term is not empty: each message is
  returned together with the pieces of the text that was highlighted in it (no pieces when
  the message has neither htmlContent nor content).
\<close>

fun highlightMessages ::
  "string \<Rightarrow> message list \<Rightarrow> nat \<Rightarrow> ((message \<times> piece list list) list \<times> nat) option" where
  "highlightMessages searchTerm [] n = Some ([], n)"
| "highlightMessages searchTerm (msg # msgs) n =
     (if truthy (htmlContent msg) then
        (case highlight_pieces (case htmlContent msg of None \<Rightarrow> [] | Some h \<Rightarrow> h) searchTerm n of
           None \<Rightarrow> None
         | Some (pss, n1) \<Rightarrow>
             (case highlightMessages searchTerm msgs n1 of
                None \<Rightarrow> None
              | Some (out, n2) \<Rightarrow>
                  Some ((msg\<lparr>htmlContent := Some (render_lines pss)\<rparr>, pss) # out, n2)))
      else if content msg \<noteq> [] then
        (case highlight_pieces (content msg) searchTerm n of
           None \<Rightarrow> None
         | Some (pss, n1) \<Rightarrow>
             (case highlightMessages searchTerm msgs n1 of
                None \<Rightarrow> None
              | Some (out, n2) \<Rightarrow>
                  Some ((msg\<lparr>content := render_lines pss\<rparr>, pss) # out, n2)))
      else
        (case highlightMessages searchTerm msgs n of
           None \<Rightarrow> None
         | Some (out, n2) \<Rightarrow> Some ((msg, []) # out, n2)))"

text \<open>The anchor ids of a rendered conversation, in document order.\<close>

definition conversation_ids :: "(message \<times> piece list list) list \<Rightarrow> nat list" where
  "conversation_ids out = concat (map (\<lambda>(msg, pss). concat (map anchor_ids pss)) out)"


section \<open>Notions used in the statements\<close>



text \<open>
  The results performFind collects for a term without syntax characters, before the sort.
\<close>

definition literal_results :: "nat \<Rightarrow> string \<Rightarrow> chat_card list \<Rightarrow> find_result list" where
  "literal_results currentMinMessages searchLower chatCards =
     map (\<lambda>c. \<lparr> result_card = c,
                matches = literal_count (toLowerCase (searchable c)) searchLower \<rparr>)
       (filter (\<lambda>c. currentMinMessages < card_messageCount c
                   \<and> 0 < literal_count (toLowerCase (searchable c)) searchLower) chatCards)"

text \<open>
  What one line contributes to the list of messages: one message or none.
\<close>

definition kept_message :: "builtins \<Rightarrow> string \<Rightarrow> message list" where
  "kept_message b line =
     (case normalize_line b line of Inr (Some m) \<Rightarrow> [m] | _ \<Rightarrow> [])"

text \<open>
  An accomplishment that points at a message: it carries the message's index, and its
  anchor id is msg- followed by that index.
\<close>

definition from_message :: "indexed_message \<Rightarrow> accomplishment \<Rightarrow> bool" where
  "from_message m a =
     (acc_messageIndex a = msg_index m \<and> acc_anchorId a = anchorId_of (msg_index m))"

text \<open>
  The two lists that allMessages sorts: the user messages with the even indices from
  \<open>2 * n\<close> on, the assistant messages with the odd ones.
\<close>

definition user_indexed :: "nat \<Rightarrow> json list \<Rightarrow> indexed_message list" where
  "user_indexed n us =
     map (\<lambda>(idx, msg). \<lparr> msg_content = msg, msg_index = idx * 2, msg_type = ''user'' \<rparr>)
       (enumerate n us)"

definition assistant_indexed :: "nat \<Rightarrow> string list \<Rightarrow> indexed_message list" where
  "assistant_indexed n as =
     map (\<lambda>(idx, msg). \<lparr> msg_content = JStr msg, msg_index = idx * 2 + 1,
                          msg_type = ''assistant'' \<rparr>)
       (enumerate n as)"

text \<open>
  The indexed messages of a log in which user and assistant messages take turns, in the
  order of the lines.
\<close>

fun interleaved :: "nat \<Rightarrow> bool \<Rightarrow> extracted list \<Rightarrow> indexed_message list" where
  "interleaved k u [] = []"
| "interleaved k u (Nothing # xs) = interleaved k u xs"
| "interleaved k u (UserMessage c # xs) =
     \<lparr> msg_content = c, msg_index = k * 2, msg_type = ''user'' \<rparr> # interleaved k False xs"
| "interleaved k u (AssistantMessage s # xs) =
     \<lparr> msg_content = JStr s, msg_index = k * 2 + 1, msg_type = ''assistant'' \<rparr>
       # interleaved (Suc k) True xs"

section \<open>Concrete inputs\<close>

text \<open>Two chats of a project \<open>proj\<close>, and the entry of the first after an analysis.\<close>

definition chatA :: chat where
  "chatA = \<lparr> chat_id = ''a1'', modifiedTime = 2000,
     firstMessage = ''Fix the login page. Thanks'',
     summary = bullet @ '' <a href=\"/chat/a1#msg-0\" class=\"summary-link\">the login page</a>'',
     chat_messageCount = 4, chat_lastMessageTimestamp = Some ''2024-01-02T10:00:00Z'' \<rparr>"

definition chatB :: chat where
  "chatB = \<lparr> chat_id = ''b2'', modifiedTime = 3000,
     firstMessage = ''hello'',
     summary = bullet @ '' 1 message conversation'',
     chat_messageCount = 1, chat_lastMessageTimestamp = None \<rparr>"

definition entryA :: thread where
  "entryA = analysed (threadInfo None ''proj'' chatA)
     ''Discussion about the login page.'' ''This conversation focused on the login page.''
     [''Implemented the login page''] ''2024-01-03T00:00:00Z''"

definition entryB :: thread where
  "entryB = threadInfo None ''proj'' chatB"

text \<open>
  Texts and cards used as concrete inputs below.
\<close>

definition headed_text :: string where
  "headed_text = ''### notes.md'' @ [CHR 0x0A] @ ''see Notes, notes''"

definition two_line_term :: string where
  "two_line_term = ''one'' @ [CHR 0x0A] @ ''two''"

definition cardX :: chat_card where
  "cardX = \<lparr> card_name = ''x'', searchable = ''abcde'', card_messageCount = 3 \<rparr>"

definition cardY :: chat_card where
  "cardY = \<lparr> card_name = ''y'', searchable = ''a.b'', card_messageCount = 3 \<rparr>"

text \<open>
  Three messages: one with htmlContent, one with nothing to highlight, one whose htmlContent
  is empty so that its content is highlighted.
\<close>

definition msgs_example :: "message list" where
  "msgs_example =
     [\<lparr> role = ''user'', content = ''foo and Foo'',
         htmlContent = Some ''<p>foo and Foo</p>'', timestamp = None, model = None \<rparr>,
      \<lparr> role = ''assistant'', content = [], htmlContent = None, timestamp = None,
         model = None \<rparr>,
      \<lparr> role = ''tool_result'', content = ''food'', htmlContent = Some [],
         timestamp = None, model = None \<rparr>]"

text \<open>
  Log lines used as concrete inputs below, the values JSON.parse gives for them, and
  stand-ins for the built-in functions: JSON.parse knows these lines only and throws on any
  other, marked wraps its input in a paragraph; stringify and the conversion to a string are
  not reached on these lines.
\<close>

definition user_line :: "string \<Rightarrow> string" where
  "user_line c = ''{\"type\":\"user\",\"message\":{\"role\":\"user\",\"content\":\"'' @ c @ ''\"}}''"

definition assistant_line :: "string \<Rightarrow> string" where
  "assistant_line c =
     ''{\"type\":\"assistant\",\"message\":{\"role\":\"assistant\",\"content\":\"'' @ c @ ''\"}}''"

definition user_entry :: "string \<Rightarrow> json" where
  "user_entry c =
     JObj [(''type'', JStr ''user''),
           (''message'', JObj [(''role'', JStr ''user''), (''content'', JStr c)])]"

definition assistant_entry :: "string \<Rightarrow> json" where
  "assistant_entry c =
     JObj [(''type'', JStr ''assistant''),
           (''message'', JObj [(''role'', JStr ''assistant''), (''content'', JStr c)])]"

definition parse_table :: "(string \<times> json) list" where
  "parse_table =
     [(user_line ''a'', user_entry ''a''),
      (assistant_line ''b'', assistant_entry ''b''),
      (assistant_line ''c'', assistant_entry ''c''),
      (user_line ''d'', user_entry ''d''),
      (user_line ''fixed a-b-c-d-e-f. thanks'', user_entry ''fixed a-b-c-d-e-f. thanks''),
      (assistant_line ''I created the new login page for app.js!'',
       assistant_entry ''I created the new login page for app.js!''),
      (''null'', JNull),
      (''{\"type\":\"summary\"}'', JObj [(''type'', JStr ''summary'')])]"

definition example_builtins :: builtins where
  "example_builtins =
     \<lparr> JSON_parse = (\<lambda>s. case map_of parse_table s of None \<Rightarrow> Inl SyntaxError | Some j \<Rightarrow> Inr j),
       JSON_stringify = (\<lambda>j. ''null''),
       JSON_stringify_indent = (\<lambda>j. ''null''),
       marked = (\<lambda>s. Inr (''<p>'' @ s @ ''</p>'')),
       toStr = (\<lambda>v. Inr ''undefined'') \<rparr>"

text \<open>
  Three small logs.
\<close>

definition lines_two :: "string list" where
  "lines_two = [user_line ''fixed a-b-c-d-e-f. thanks'',
                assistant_line ''I created the new login page for app.js!'']"

definition lines_four :: "string list" where
  "lines_four = [user_line ''a'', assistant_line ''b'', assistant_line ''c'', user_line ''d'']"

definition lines_mixed :: "string list" where
  "lines_mixed = [user_line ''a'', ''not json'', ''null'', assistant_line ''b'',
                  ''{\"type\":\"summary\"}'']"

section \<open>Properties of the history index\<close>

lemmas index_eval = updateHistoryIndex_def written_def hasChanges_def newIndex_def
  builtIndex_def existingMap_def keyOf_def threadInfo_def isChanged_def threadKey_def
  truthy_def js_or_def first_sentence_def bullets_def trim_def startsWith_def is_space_def
  is_terminator_def bullet_def chatA_def chatB_def entryA_def entryB_def analysed_def
  observedKeys_def

lemma fold_upd_map_of:
  "fold (\<lambda>t m. m(k t \<mapsto> t)) xs m = m ++ map_of (rev (map (\<lambda>t. (k t, t)) xs))"
proof (induction xs arbitrary: m)
  case Nil
  then show ?case by simp
next
  case (Cons x xs)
  have "fold (\<lambda>t m. m(k t \<mapsto> t)) (x # xs) m
        = fold (\<lambda>t m. m(k t \<mapsto> t)) xs (m(k x \<mapsto> x))"
    by (simp only: fold_simps)
  also have "\<dots> = m(k x \<mapsto> x) ++ map_of (rev (map (\<lambda>t. (k t, t)) xs))"
    by (rule Cons.IH)
  also have "\<dots> = m ++ map_of (rev (map (\<lambda>t. (k t, t)) (x # xs)))"
    by (simp add: map_add_upd_left [symmetric] del: fun_upd_apply)
  finally show ?case .
qed

lemma existingMap_map_of:
  "existingMap doc = map_of (rev (map (\<lambda>t. (keyOf t, t)) doc))"
  unfolding existingMap_def by (simp add: fold_upd_map_of)

lemma existingMap_SomeD:
  "existingMap doc k = Some e \<Longrightarrow> e \<in> set doc \<and> keyOf e = k"
  unfolding existingMap_map_of by (auto dest!: map_of_SomeD)



lemma keyOf_threadInfo [simp]: "keyOf (threadInfo ex p c) = threadKey p (chat_id c)"
  by (simp add: keyOf_def threadInfo_def)




lemma set_newIndex: "set (newIndex doc scan) = set (builtIndex doc scan)"
  by (simp add: newIndex_def)


lemma threadInfo_in_built:
  "(p, chats) \<in> set scan \<Longrightarrow> c \<in> set chats \<Longrightarrow>
   threadInfo (existingMap doc (threadKey p (chat_id c))) p c \<in> set (builtIndex doc scan)"
  unfolding builtIndex_def by force






text \<open>
  Claim C4, as amended. For an observed chat whose key has a stored entry, the merged entry
  keeps the stored paragraphSummary and oneLineSummary when they are non-empty and the stored
  bulletSummary when there is one, and the document stored after the merge still holds an
  entry of that key with the stored non-empty paragraphSummary.
\<close>
theorem C4_summaries_merged_forward:
  assumes pc: "(p, chats) \<in> set scan" "c \<in> set chats"
    and ex: "existingMap doc (threadKey p (chat_id c)) = Some e"
  shows "threadInfo (Some e) p c \<in> set (newIndex doc scan)
       \<and> (truthy (paragraphSummary e) \<longrightarrow>
            paragraphSummary (threadInfo (Some e) p c) = paragraphSummary e)
       \<and> (truthy (oneLineSummary e) \<longrightarrow>
            oneLineSummary (threadInfo (Some e) p c) = oneLineSummary e)
       \<and> (bulletSummary e \<noteq> None \<longrightarrow>
            bulletSummary (threadInfo (Some e) p c) = bulletSummary e)
       \<and> (truthy (paragraphSummary e) \<longrightarrow>
            (\<exists>t \<in> set (updateHistoryIndex doc scan).
               keyOf t = keyOf e \<and> paragraphSummary t = paragraphSummary e))"
proof -
  let ?t = "threadInfo (Some e) p c"
  have mem: "?t \<in> set (newIndex doc scan)"
    using threadInfo_in_built [OF pc, of doc] ex by (simp add: set_newIndex)
  have par: "truthy (paragraphSummary e) \<Longrightarrow> paragraphSummary ?t = paragraphSummary e"
    by (simp add: threadInfo_def js_or_def)
  have one: "truthy (oneLineSummary e) \<Longrightarrow> oneLineSummary ?t = oneLineSummary e"
    by (simp add: threadInfo_def js_or_def)
  have bul: "bulletSummary e \<noteq> None \<Longrightarrow> bulletSummary ?t = bulletSummary e"
    by (auto simp: threadInfo_def)
  have e: "e \<in> set doc" "keyOf e = threadKey p (chat_id c)"
    using existingMap_SomeD [OF ex] by simp_all
  have kept: "\<exists>t \<in> set (updateHistoryIndex doc scan).
                keyOf t = keyOf e \<and> paragraphSummary t = paragraphSummary e"
    if tr: "truthy (paragraphSummary e)"
  proof (cases "written doc scan")
    case True
    then have "?t \<in> set (updateHistoryIndex doc scan)"
      using mem by (simp add: updateHistoryIndex_def)
    moreover have "keyOf ?t = keyOf e" using e(2) by simp
    ultimately show ?thesis using par [OF tr] by blast
  next
    case False
    then have "e \<in> set (updateHistoryIndex doc scan)"
      using e(1) by (simp add: updateHistoryIndex_def)
    then show ?thesis by blast
  qed
  show ?thesis using mem par one bul kept by blast
qed

text \<open>The theorem of C4 at the analysed entry, merged together with a new chat.\<close>
theorem C4_summaries_merged_forward_witness:
  "paragraphSummary (threadInfo (Some entryA) ''proj'' chatA)
     = Some ''This conversation focused on the login page.''
   \<and> threadInfo (Some entryA) ''proj'' chatA
       \<in> set (newIndex [entryA] [(''proj'', [chatA, chatB])])"
proof -
  have pc: "(''proj'', [chatA, chatB]) \<in> set [(''proj'', [chatA, chatB])]"
    "chatA \<in> set [chatA, chatB]" by simp_all
  have ex: "existingMap [entryA] (threadKey ''proj'' (chat_id chatA)) = Some entryA"
    by (simp add: index_eval)
  have tr: "truthy (paragraphSummary entryA)"
    "paragraphSummary entryA = Some ''This conversation focused on the login page.''"
    by (simp_all add: index_eval)
  show ?thesis
    using C4_summaries_merged_forward [OF pc ex] tr by simp
qed

text \<open>
  Claim C4 as stated fails: when a new chat makes the merge rewrite the document, the entry
  that runAnalysis had completed loses lastAnalyzed, and its needsAnalysis is no longer the
  stored false but missing.
\<close>
theorem C4_lastAnalyzed_dropped:
  "lastAnalyzed entryA = Some ''2024-01-03T00:00:00Z''
   \<and> needsAnalysis entryA = Some False
   \<and> map keyOf (updateHistoryIndex [entryA] [(''proj'', [chatA, chatB])])
       = [''proj:b2'', ''proj:a1'']
   \<and> map lastAnalyzed (updateHistoryIndex [entryA] [(''proj'', [chatA, chatB])])
       = [None, None]
   \<and> map needsAnalysis (updateHistoryIndex [entryA] [(''proj'', [chatA, chatB])])
       = [Some True, None]"
  by (simp add: index_eval)






section \<open>Properties of highlighting and of the find script\<close>

lemma not_syntax_simps:
  "\<not> is_syntax_char c \<Longrightarrow> c \<noteq> CHR 0x5C \<and> c \<noteq> CHR ''.''"
  by (auto simp: is_syntax_char_def)

lemma seq_atoms_escape_term: "seq_atoms (escape_term t) = Some (map Lit t)"
proof (induction t)
  case Nil
  then show ?case by (simp add: escape_term_def)
next
  case (Cons c t)
  have ih: "seq_atoms (escape_term t) = Some (map Lit t)" by (rule Cons.IH)
  show ?case
  proof (cases "is_syntax_char c")
    case True
    have "escape_term (c # t) = CHR 0x5C # c # escape_term t"
      using True by (simp add: escape_term_def)
    then show ?thesis using True ih by simp
  next
    case False
    have "escape_term (c # t) = c # escape_term t"
      using False by (simp add: escape_term_def)
    then show ?thesis using False not_syntax_simps [OF False] ih by simp
  qed
qed

lemma regex_atoms_group:
  "regex_atoms (CHR ''('' # escape_term t @ '')'') = Some (map Lit t)"
  by (simp add: regex_atoms_def seq_atoms_escape_term butlast_append)

lemma replace_from_ids:
  "replace_from as k s n = (ps, n') \<Longrightarrow> anchor_ids ps = [Suc n..<Suc n'] \<and> n \<le> n'"
proof (induction as k s n arbitrary: ps n' rule: replace_from.induct)
  case (1 as k n)
  then show ?case by (auto simp: anchor_ids_def simp del: upt_Suc)
next
  case (2 as k c cs n)
  then show ?case by simp
next
  case (3 as c cs n)
  show ?case
  proof (cases "matches_at as (c # cs)")
    case True
    obtain qs m where r: "replace_from as (length as - 1) cs (Suc n) = (qs, m)"
      by (cases "replace_from as (length as - 1) cs (Suc n)")
    have ih: "anchor_ids qs = [Suc (Suc n)..<Suc m] \<and> Suc n \<le> m"
      using "3.IH"(1) [OF True r] .
    have "ps = Anchor (Suc n) (take (length as) (c # cs)) # qs" "n' = m"
      using "3.prems" True r by simp_all
    then show ?thesis using ih by (simp add: anchor_ids_def upt_conv_Cons del: upt_Suc)
  next
    case False
    obtain qs m where r: "replace_from as 0 cs n = (qs, m)"
      by (cases "replace_from as 0 cs n")
    have ih: "anchor_ids qs = [Suc n..<Suc m] \<and> n \<le> m"
      using "3.IH"(2) [OF False r] .
    have "ps = Plain c # qs" "n' = m"
      using "3.prems" False r by simp_all
    then show ?thesis using ih by (simp add: anchor_ids_def del: upt_Suc)
  qed
qed

lemma anchor_ids_plain [simp]: "anchor_ids (map Plain l) = []"
  by (induction l) (simp_all add: anchor_ids_def)

lemma highlight_line_ids:
  "highlight_line as l n = (ps, n') \<Longrightarrow> anchor_ids ps = [Suc n..<Suc n'] \<and> n \<le> n'"
  by (auto simp: highlight_line_def replace_from_ids simp del: upt_Suc split: if_splits)

lemma upt_chain:
  "n \<le> m \<Longrightarrow> m \<le> k \<Longrightarrow> [Suc n..<Suc m] @ [Suc m..<Suc k] = [Suc n..<Suc k]"
  by (metis Suc_le_mono upt_add_eq_append le_iff_add)

lemma highlight_lines_ids:
  "highlight_lines as ls n = (pss, n') \<Longrightarrow>
   concat (map anchor_ids pss) = [Suc n..<Suc n'] \<and> n \<le> n' \<and> length pss = length ls"
proof (induction ls arbitrary: n pss n')
  case Nil
  then show ?case by (auto simp del: upt_Suc)
next
  case (Cons l ls)
  obtain ps n1 where h: "highlight_line as l n = (ps, n1)"
    by (cases "highlight_line as l n")
  obtain qss n2 where r: "highlight_lines as ls n1 = (qss, n2)"
    by (cases "highlight_lines as ls n1")
  have eq: "pss = ps # qss" "n' = n2" using Cons.prems h r by simp_all
  have a: "anchor_ids ps = [Suc n..<Suc n1] \<and> n \<le> n1" using highlight_line_ids [OF h] .
  have b: "concat (map anchor_ids qss) = [Suc n1..<Suc n2] \<and> n1 \<le> n2 \<and> length qss = length ls"
    using Cons.IH [OF r] .
  show ?case using a b eq by (simp add: upt_chain del: upt_Suc)
qed

lemma plain_lines_ids [simp]: "concat (map anchor_ids (map (map Plain) ls)) = []"
  by (induction ls) simp_all

lemma highlight_pieces_total:
  "\<exists>pss n'. highlight_pieces text t n = Some (pss, n')
     \<and> concat (map anchor_ids pss) = [Suc n..<Suc n'] \<and> n \<le> n'"
proof (cases "t = [] \<or> text = []")
  case True
  then show ?thesis by (auto simp: highlight_pieces_def simp del: upt_Suc)
next
  case False
  obtain pss n' where h: "highlight_lines (map Lit t) (split_on CHR 0x0A text) n = (pss, n')"
    by (cases "highlight_lines (map Lit t) (split_on CHR 0x0A text) n")
  have "highlight_pieces text t n = Some (pss, n')"
    using False h by (simp add: highlight_pieces_def regex_atoms_group)
  then show ?thesis using highlight_lines_ids [OF h] by (simp del: upt_Suc)
qed

lemma highlightMessages_ids:
  "\<exists>out n'. highlightMessages t msgs n = Some (out, n')
     \<and> conversation_ids out = [Suc n..<Suc n'] \<and> n \<le> n' \<and> length out = length msgs"
proof (induction msgs arbitrary: n)
  case Nil
  then show ?case by (simp add: conversation_ids_def del: upt_Suc)
next
  case (Cons msg msgs)
  show ?case
  proof (cases "truthy (htmlContent msg)")
    case True
    obtain pss n1 where
      h: "highlight_pieces (case htmlContent msg of None \<Rightarrow> [] | Some h \<Rightarrow> h) t n = Some (pss, n1)"
      and i: "concat (map anchor_ids pss) = [Suc n..<Suc n1]" "n \<le> n1"
      using highlight_pieces_total by blast
    obtain out n2 where r: "highlightMessages t msgs n1 = Some (out, n2)"
      and j: "conversation_ids out = [Suc n1..<Suc n2]" "n1 \<le> n2" "length out = length msgs"
      using Cons.IH by blast
    show ?thesis using True h i r j by (simp add: conversation_ids_def upt_chain del: upt_Suc)
  next
    case False
    note nf = False
    show ?thesis
    proof (cases "content msg \<noteq> []")
      case True
      obtain pss n1 where
        h: "highlight_pieces (content msg) t n = Some (pss, n1)"
        and i: "concat (map anchor_ids pss) = [Suc n..<Suc n1]" "n \<le> n1"
        using highlight_pieces_total by blast
      obtain out n2 where r: "highlightMessages t msgs n1 = Some (out, n2)"
        and j: "conversation_ids out = [Suc n1..<Suc n2]" "n1 \<le> n2" "length out = length msgs"
        using Cons.IH by blast
      show ?thesis using nf True h i r j by (simp add: conversation_ids_def upt_chain del: upt_Suc)
    next
      case False
      obtain out n2 where r: "highlightMessages t msgs n = Some (out, n2)"
        and j: "conversation_ids out = [Suc n..<Suc n2]" "n \<le> n2" "length out = length msgs"
        using Cons.IH by blast
      show ?thesis using nf False r j by (simp add: conversation_ids_def del: upt_Suc)
    qed
  qed
qed

text \<open>
  Claim C7. For every search term and every list of messages the highlighting ends, and
  the anchor ids it produced, read in document order, are 1, 2, ... up to the final value of
  the counter (the searchCount the page shows): they are pairwise different and strictly
  increasing.
\<close>

theorem C7_anchor_ids_count_up:
  "\<exists>out searchCount. highlightMessages searchTerm msgs 0 = Some (out, searchCount)
     \<and> conversation_ids out = [1..<Suc searchCount]
     \<and> distinct (conversation_ids out)
     \<and> sorted_wrt (<) (conversation_ids out)"
proof -
  obtain out k where h: "highlightMessages searchTerm msgs 0 = Some (out, k)"
    and i: "conversation_ids out = [Suc 0..<Suc k]"
    using highlightMessages_ids [of searchTerm msgs 0] by blast
  have "distinct (conversation_ids out)" "sorted_wrt (<) (conversation_ids out)"
    unfolding i by (simp_all del: upt_Suc)
  with h i show ?thesis by (simp del: upt_Suc)
qed

lemma piece_text_simps [simp]:
  "piece_text (Plain c) = [c]" "piece_text (Anchor k m) = m"
  by (simp_all add: piece_text_def)





lemma render_plain: "render_line (map Plain l) = l"
  by (induction l) (simp_all add: render_line_def render_piece_def)



lemma split_on_nonempty [simp]: "split_on d s \<noteq> []"
  by (induction s) (auto split: list.splits)

lemma join_split_on: "join [d] (split_on d s) = s"
proof (induction s)
  case Nil
  then show ?case by simp
next
  case (Cons c s)
  obtain l ls where sp: "split_on d s = l # ls"
    using split_on_nonempty [of d s] by (cases "split_on d s") auto
  show ?case
  proof (cases "c = d")
    case True
    then show ?thesis using Cons.IH sp by simp
  next
    case False
    have "join [d] ((c # l) # ls) = c # join [d] (l # ls)"
      by (cases ls) simp_all
    then show ?thesis using False Cons.IH sp by simp
  qed
qed

lemma render_plain_lines: "render_lines (map (map Plain) ls) = join [CHR 0x0A] ls"
  by (simp add: render_lines_def comp_def render_plain)

lemmas search_eval = highlightSearchTerm_def highlight_pieces_def regex_atoms_def
  escape_term_def is_syntax_char_def highlight_line_def is_heading_line_def trim_def
  startsWith_def is_space_def atom_matches_def toUpperCase_char_def toLowerCase_char_def
  toLowerCase_def render_lines_def render_line_def render_piece_def show_nat.simps
  countMatches_def performFind_def sortByMatches_def literal_count_def
  in_escapeRegex_class_def headed_text_def two_line_term_def cardX_def cardY_def




text \<open>
  Claim C6 at the term made of one dot. escapeRegex leaves the dot as it is (the escape of
  server.js puts a backslash before it), the pattern matches every character, and the card
  whose text has no dot is ranked first with five matches, before the card whose text has
  one.
\<close>

theorem C6_dot_term_counts_characters:
  "performFind 0 [cardX, cardY] ''.''
     = Some [\<lparr> result_card = cardX, matches = 5 \<rparr>, \<lparr> result_card = cardY, matches = 3 \<rparr>]
   \<and> literal_count (toLowerCase (searchable cardX)) ''.'' = 0
   \<and> literal_count (toLowerCase (searchable cardY)) ''.'' = 1
   \<and> escapeRegex ''.'' = ''.''
   \<and> escape_term ''.'' = [CHR 0x5C, CHR ''.'']"
  by (simp add: search_eval)

text \<open>
  The theorem of C7 at three messages and the term foo: three anchors, numbered 1, 2, 3.
\<close>

theorem C7_anchor_ids_count_up_witness:
  "\<exists>out. highlightMessages ''foo'' msgs_example 0 = Some (out, 3)
     \<and> conversation_ids out = [1, 2, 3]"
proof -
  have e: "map_option snd (highlightMessages ''foo'' msgs_example 0) = Some 3"
    by (simp add: search_eval msgs_example_def truthy_def)
  obtain out k where h: "highlightMessages ''foo'' msgs_example 0 = Some (out, k)"
    and i: "conversation_ids out = [1..<Suc k]"
    using C7_anchor_ids_count_up [of "''foo''" msgs_example] by blast
  have "k = 3" using e h by simp
  then have "conversation_ids out = [1, 2, 3]" using i by (simp add: upt_rec)
  with h \<open>k = 3\<close> show ?thesis by simp
qed

lemma in_class_syntax: "in_escapeRegex_class c \<Longrightarrow> is_syntax_char c"
  by (auto simp: in_escapeRegex_class_def is_syntax_char_def)

lemma escapeRegex_plain: "list_all (\<lambda>c. \<not> is_syntax_char c) t \<Longrightarrow> escapeRegex t = t"
  by (induction t rule: escapeRegex.induct) (auto dest: in_class_syntax)

lemma seq_atoms_plain:
  "list_all (\<lambda>c. \<not> is_syntax_char c) t \<Longrightarrow> seq_atoms t = Some (map Lit t)"
  by (induction t) (auto dest: not_syntax_simps)

lemma regex_atoms_plain:
  "list_all (\<lambda>c. \<not> is_syntax_char c) t \<Longrightarrow> regex_atoms t = Some (map Lit t)"
proof (cases t)
  case Nil
  then show ?thesis by (simp add: regex_atoms_def)
next
  case (Cons c cs)
  assume p: "list_all (\<lambda>c. \<not> is_syntax_char c) t"
  then have "c \<noteq> CHR ''(''" using Cons by (auto simp: is_syntax_char_def)
  then show ?thesis using seq_atoms_plain [OF p] Cons by (simp add: regex_atoms_def)
qed

lemma countMatches_plain:
  "t \<noteq> [] \<Longrightarrow> list_all (\<lambda>c. \<not> is_syntax_char c) t \<Longrightarrow>
   countMatches text t = Some (literal_count text t)"
  by (simp add: countMatches_def literal_count_def escapeRegex_plain regex_atoms_plain)

lemma toLowerCase_plain_char: "\<not> is_syntax_char c \<Longrightarrow> \<not> is_syntax_char (toLowerCase_char c)"
  by (auto simp: toLowerCase_char_def is_syntax_char_def split: option.splits if_splits)

lemma toLowerCase_plain:
  "list_all (\<lambda>c. \<not> is_syntax_char c) t \<Longrightarrow> list_all (\<lambda>c. \<not> is_syntax_char c) (toLowerCase t)"
  by (induction t) (simp_all add: toLowerCase_def toLowerCase_plain_char)

lemma find_results_plain:
  "q \<noteq> [] \<Longrightarrow> list_all (\<lambda>c. \<not> is_syntax_char c) q \<Longrightarrow>
   find_results m q cards = Some (literal_results m q cards)"
  by (induction cards) (auto simp: countMatches_plain literal_results_def)

text \<open>
  For a term without syntax characters the ranking is as the specification says: the
  results are sorted by descending count of the occurrences of the term, and results with
  equal counts keep the order in which the cards were met.
\<close>

lemma performFind_plain:
  assumes ne: "searchTerm \<noteq> []"
    and plain: "list_all (\<lambda>c. \<not> is_syntax_char c) searchTerm"
  shows "\<exists>rs. performFind m cards searchTerm = Some rs
     \<and> rs = sortByMatches (literal_results m (toLowerCase searchTerm) cards)
     \<and> sorted (map (\<lambda>r. - int (matches r)) rs)
     \<and> (\<forall>k. filter (\<lambda>r. matches r = k) rs
             = filter (\<lambda>r. matches r = k) (literal_results m (toLowerCase searchTerm) cards))"
proof -
  let ?rs = "sortByMatches (literal_results m (toLowerCase searchTerm) cards)"
  have p: "performFind m cards searchTerm = Some ?rs"
    using ne find_results_plain [OF _ toLowerCase_plain [OF plain], of m cards]
    by (simp add: performFind_def toLowerCase_def)
  have s: "sorted (map (\<lambda>r. - int (matches r)) ?rs)"
    by (simp add: sortByMatches_def)
  have st: "filter (\<lambda>r. matches r = k) ?rs
     = filter (\<lambda>r. matches r = k) (literal_results m (toLowerCase searchTerm) cards)" for k
    using sort_key_stable [of "\<lambda>r. - int (matches r)" "- int k"
        "literal_results m (toLowerCase searchTerm) cards"]
    by (simp add: sortByMatches_def)
  show ?thesis using p s st by blast
qed

section \<open>Properties of the log reader and of the Tier-1 summary\<close>

lemmas log_eval = user_line_def assistant_line_def user_entry_def assistant_entry_def
  parse_table_def example_builtins_def normalize_line_def normalize_entry_def
  tool_result_message_def try_catch_def and_then_def get_prop_def prop_of_def js_truthy_def
  call_marked_def to_string_def string_or_stringify_def extract_line_def extract_entry_def
  push_extracted_def collect_messages_def in_line_order_def extracted_of_def
  line_contents_def users_of_def assistants_of_def trim_def is_space_def

lemma normalize_line_total: "\<exists>m. normalize_line b line = Inr m"
  by (simp add: normalize_line_def try_catch_def split: sum.splits)

lemma extract_line_total: "\<exists>x. extract_line b line = Inr x"
  by (simp add: extract_line_def try_catch_def split: sum.splits)

lemma parse_lines_total:
  "parse_lines b lines = Inr (concat (map (kept_message b) lines))"
proof (induction lines)
  case Nil
  then show ?case by simp
next
  case (Cons line lines)
  obtain m where m: "normalize_line b line = Inr m" using normalize_line_total by blast
  show ?case using m Cons.IH
    by (cases m) (simp_all add: and_then_def kept_message_def)
qed

lemma length_kept_message: "length (kept_message b line) \<le> 1"
  by (simp add: kept_message_def split: sum.splits option.splits)

lemma length_kept: "length (concat (map (kept_message b) lines)) \<le> length lines"
proof (induction lines)
  case Nil
  then show ?case by simp
next
  case (Cons line lines)
  then show ?case using length_kept_message [of b line] by simp
qed

lemma collect_lines_total: "\<exists>st'. collect_lines b lines st = Inr st'"
proof (induction lines arbitrary: st)
  case Nil
  then show ?case by simp
next
  case (Cons line lines)
  obtain x where x: "extract_line b line = Inr x" using extract_line_total by blast
  show ?case using x Cons.IH [of "push_extracted x st"] by (simp add: and_then_def)
qed

text \<open>
  Claim C3. Whatever the built-in functions do, a line gives a message or nothing and never
  an exception, on the chat page and on the home page alike; a line that JSON.parse rejects
  gives nothing; the messages of a file are the messages of its lines in order, at most one
  for each line, and the loops over the lines of a file always end without an exception.
\<close>

theorem C3_no_error_leaves_the_normalizer:
  "(\<exists>m. normalize_line b line = Inr m)
   \<and> (\<forall>e. JSON_parse b line = Inl e \<longrightarrow> normalize_line b line = Inr None)
   \<and> parse_lines b lines = Inr (concat (map (kept_message b) lines))
   \<and> length (kept_message b line) \<le> 1
   \<and> length (concat (map (kept_message b) lines)) \<le> length lines
   \<and> (\<exists>x. extract_line b line = Inr x)
   \<and> (\<forall>e. JSON_parse b line = Inl e \<longrightarrow> extract_line b line = Inr Nothing)
   \<and> (\<exists>st. collect_messages b lines = Inr st)"
proof -
  have "normalize_line b line = Inr None" if "JSON_parse b line = Inl e" for e
    using that by (simp add: normalize_line_def try_catch_def and_then_def)
  moreover have "extract_line b line = Inr Nothing" if "JSON_parse b line = Inl e" for e
    using that by (simp add: extract_line_def try_catch_def and_then_def)
  ultimately show ?thesis
    using normalize_line_total [of b line] parse_lines_total [of b lines]
      length_kept_message [of b line] length_kept [of b lines] extract_line_total [of b line]
      collect_lines_total [of b lines] unfolding collect_messages_def
    by blast
qed

lemma fold_members:
  assumes step: "\<And>x acc a. a \<in> set (f x acc) \<Longrightarrow> a \<in> set acc \<or> Q x a"
  shows "a \<in> set (fold f xs acc) \<Longrightarrow> a \<in> set acc \<or> (\<exists>x \<in> set xs. Q x a)"
proof (induction xs arbitrary: acc)
  case Nil
  then show ?case by simp
next
  case (Cons x xs)
  from Cons.prems have "a \<in> set (fold f xs (f x acc))" by simp
  then have "a \<in> set (f x acc) \<or> (\<exists>y \<in> set xs. Q y a)" by (rule Cons.IH)
  then show ?case using step [of a x acc] by auto
qed

lemma length_trim_le: "length (trim s) \<le> length s"
proof -
  have "length (trim s) \<le> length (dropWhile is_space s)"
    unfolding trim_def using length_dropWhile_le [of is_space "rev (dropWhile is_space s)"]
    by simp
  also have "\<dots> \<le> length s" by (rule length_dropWhile_le)
  finally show ?thesis .
qed

lemma length_collapse_spaces_le: "length (collapse_spaces p s) \<le> length s"
  by (induction s arbitrary: p) (auto simp: le_SucI)

lemma length_cleaned_le: "length (cleaned s) \<le> length s"
proof -
  have "length (cleaned s)
        \<le> length (filter (\<lambda>c. is_alnum c \<or> is_space c) (collapse_spaces False s))"
    unfolding cleaned_def by (rule length_trim_le)
  also have "\<dots> \<le> length (collapse_spaces False s)" by (rule length_filter_le)
  also have "\<dots> \<le> length s" by (rule length_collapse_spaces_le)
  finally show ?thesis .
qed




lemma consider_capture_members:
  "a \<in> set (consider_capture accs idx cap) \<Longrightarrow>
   a \<in> set accs \<or> (acc_messageIndex a = idx \<and> acc_anchorId a = anchorId_of idx
      \<and> acc_text a \<noteq> [] \<and> length (acc_text a) < 100)"
proof (cases "consider_capture accs idx cap = accs")
  case True
  assume "a \<in> set (consider_capture accs idx cap)"
  then show ?thesis using True by simp
next
  case False
  assume a: "a \<in> set (consider_capture accs idx cap)"
  have "consider_capture accs idx cap
          = accs @ [\<lparr> acc_text = cleaned (trim cap), acc_messageIndex = idx,
                       acc_anchorId = anchorId_of idx \<rparr>]"
    "cleaned (trim cap) \<noteq> []" "length (cleaned (trim cap)) < 100"
    using False by (auto simp: consider_capture_def Let_def split: if_splits
        intro: le_less_trans [OF length_cleaned_le])
  then show ?thesis using a by auto
qed

lemma scan_message_members:
  "a \<in> set (scan_message verb msg accs) \<Longrightarrow> a \<in> set accs \<or> from_message msg a"
proof -
  assume "a \<in> set (scan_message verb msg accs)"
  then have "a \<in> set accs
      \<or> (\<exists>cap \<in> set (captures_from verb 0 (toLowerCase (msg_text msg))). from_message msg a)"
    unfolding scan_message_def
    by (rule fold_members [rotated]) (auto dest: consider_capture_members simp: from_message_def)
  then show ?thesis by blast
qed

lemma action_phase_members:
  "a \<in> set (action_phase msgs) \<Longrightarrow> \<exists>m \<in> set msgs. from_message m a"
proof -
  assume "a \<in> set (action_phase msgs)"
  then have "a \<in> set [] \<or> (\<exists>verb \<in> set verbs. \<exists>m \<in> set msgs. from_message m a)"
    unfolding action_phase_def
  proof (rule fold_members [rotated])
    fix verb acc b
    assume "b \<in> set (fold (scan_message verb) msgs acc)"
    then show "b \<in> set acc \<or> (\<exists>m \<in> set msgs. from_message m b)"
      by (rule fold_members [rotated]) (rule scan_message_members)
  qed
  then show ?thesis by simp
qed

lemma file_phase_members:
  "a \<in> set (file_phase text msgs accs) \<Longrightarrow> a \<in> set accs \<or> (\<exists>m \<in> set msgs. from_message m a)"
proof (cases "file_matches_from False 0 text \<noteq> [] \<and> length accs < 3")
  case False
  assume "a \<in> set (file_phase text msgs accs)"
  then show ?thesis using False by (auto simp: file_phase_def Let_def)
next
  case True
  assume "a \<in> set (file_phase text msgs accs)"
  then have "a \<in> set (fold (\<lambda>file accs.
                   (case find (\<lambda>m. includes_str (toLowerCase (msg_text m)) file) msgs of
                      None \<Rightarrow> accs
                    | Some m \<Rightarrow>
                        accs @ [\<lparr> acc_text = ''worked on '' @ file,
                                   acc_messageIndex = msg_index m,
                                   acc_anchorId = anchorId_of (msg_index m) \<rparr>]))
             (take 2 (unique_values (file_matches_from False 0 text))) accs)"
    using True by (simp add: file_phase_def Let_def)
  then have "a \<in> set accs
      \<or> (\<exists>file \<in> set (take 2 (unique_values (file_matches_from False 0 text))).
            \<exists>m \<in> set msgs. from_message m a)"
  proof (rule fold_members [rotated])
    fix fname acc b
    assume b: "b \<in> set (case find (\<lambda>m. includes_str (toLowerCase (msg_text m)) fname) msgs of
                      None \<Rightarrow> acc
                    | Some m \<Rightarrow>
                        acc @ [\<lparr> acc_text = ''worked on '' @ fname,
                                  acc_messageIndex = msg_index m,
                                  acc_anchorId = anchorId_of (msg_index m) \<rparr>])"
    show "b \<in> set acc \<or> (\<exists>m \<in> set msgs. from_message m b)"
    proof (cases "find (\<lambda>m. includes_str (toLowerCase (msg_text m)) fname) msgs")
      case None
      then show ?thesis using b by simp
    next
      case (Some m)
      then have "m \<in> set msgs" by (auto simp: find_Some_iff)
      then show ?thesis using b Some by (auto simp: from_message_def)
    qed
  qed
  then show ?thesis by blast
qed

lemma accomplishments_members:
  "a \<in> set (accomplishments_of text msgs) \<Longrightarrow> \<exists>m \<in> set msgs. from_message m a"
  unfolding accomplishments_of_def
  using file_phase_members action_phase_members by blast

lemma allMessages_alt:
  "allMessages us as = sort_key msg_index (user_indexed 0 us @ assistant_indexed 0 as)"
  by (simp add: allMessages_def user_indexed_def assistant_indexed_def)

lemma user_indexed_index:
  "map msg_index (user_indexed n us) = map (\<lambda>i. i * 2) [n..<n + length us]"
proof -
  have "map (\<lambda>i. i * 2) [n..<n + length us] = map (\<lambda>i. i * 2) (map fst (enumerate n us))"
    by simp
  also have "\<dots> = map msg_index (user_indexed n us)"
    by (simp add: user_indexed_def comp_def case_prod_beta del: map_fst_enumerate)
  finally show ?thesis by simp
qed

lemma assistant_indexed_index:
  "map msg_index (assistant_indexed n as) = map (\<lambda>i. i * 2 + 1) [n..<n + length as]"
proof -
  have "map (\<lambda>i. i * 2 + 1) [n..<n + length as]
          = map (\<lambda>i. i * 2 + 1) (map fst (enumerate n as))"
    by simp
  also have "\<dots> = map msg_index (assistant_indexed n as)"
    by (simp add: assistant_indexed_def comp_def case_prod_beta del: map_fst_enumerate)
  finally show ?thesis by simp
qed

lemma user_indexed_content: "map msg_content (user_indexed n us) = us"
proof -
  have "map msg_content (user_indexed n us) = map snd (enumerate n us)"
    by (simp add: user_indexed_def comp_def case_prod_beta)
  then show ?thesis by simp
qed

lemma assistant_indexed_content: "map msg_content (assistant_indexed n as) = map JStr as"
proof -
  have "map JStr as = map JStr (map snd (enumerate n as))"
    by simp
  also have "\<dots> = map msg_content (assistant_indexed n as)"
    by (simp add: assistant_indexed_def comp_def case_prod_beta del: map_snd_enumerate)
  finally show ?thesis by simp
qed

lemma user_indexed_type: "m \<in> set (user_indexed n us) \<Longrightarrow> msg_type m = ''user''"
  by (auto simp: user_indexed_def)

lemma assistant_indexed_type: "m \<in> set (assistant_indexed n as) \<Longrightarrow> msg_type m = ''assistant''"
  by (auto simp: assistant_indexed_def)

lemma sorted_even: "sorted (map (\<lambda>i. i * 2) [n..<m])"
  by (simp add: sorted_map sorted_wrt_mono_rel [OF _ sorted_wrt_upt])

lemma sorted_odd: "sorted (map (\<lambda>i. Suc (i * 2)) [n..<m])"
  by (simp add: sorted_map sorted_wrt_mono_rel [OF _ sorted_wrt_upt])

lemma distinct_indices:
  "distinct (map msg_index (user_indexed n us @ assistant_indexed k as))"
proof -
  have "distinct (map (\<lambda>i. i * 2) [n..<n + length us])"
    by (simp add: distinct_map inj_on_def)
  moreover have "distinct (map (\<lambda>i. i * 2 + 1) [k..<k + length as])"
    by (simp add: distinct_map inj_on_def)
  moreover have "(\<lambda>i. i * 2) ` A \<inter> (\<lambda>i. i * 2 + 1) ` B = {}" for A B :: "nat set"
    by (auto, presburger)
  ultimately show ?thesis
    by (simp add: user_indexed_index assistant_indexed_index)
qed

lemma allMessages_strict:
  "sorted_wrt (<) (map msg_index (allMessages us as))"
proof -
  let ?xs = "user_indexed 0 us @ assistant_indexed 0 as"
  have "distinct (map msg_index ?xs)" by (rule distinct_indices)
  then have "distinct ?xs \<and> inj_on msg_index (set ?xs)" by (simp only: distinct_map)
  then have "distinct (map msg_index (sort_key msg_index ?xs))"
    by (simp add: distinct_map)
  moreover have "sorted (map msg_index (sort_key msg_index ?xs))" by simp
  ultimately show ?thesis unfolding allMessages_alt by (simp add: strict_sorted_iff)
qed

lemma allMessages_users_indexed:
  "filter (\<lambda>m. msg_type m = ''user'') (allMessages us as) = user_indexed 0 us"
proof -
  let ?P = "\<lambda>m. msg_type m = ''user''"
  have u: "filter ?P (user_indexed 0 us) = user_indexed 0 us"
    by (simp add: user_indexed_type)
  have a: "filter ?P (assistant_indexed 0 as) = []"
    by (auto simp: filter_empty_conv dest: assistant_indexed_type)
  have "filter ?P (allMessages us as) = sort_key msg_index (user_indexed 0 us)"
    unfolding allMessages_alt by (simp add: filter_sort u a)
  also have "\<dots> = user_indexed 0 us"
    by (rule sort_key_id_if_sorted) (simp add: user_indexed_index sorted_even)
  finally show ?thesis .
qed

lemma allMessages_users:
  "map msg_content (filter (\<lambda>m. msg_type m = ''user'') (allMessages us as)) = us"
  by (simp add: allMessages_users_indexed user_indexed_content)

lemma allMessages_assistants_indexed:
  "filter (\<lambda>m. msg_type m = ''assistant'') (allMessages us as) = assistant_indexed 0 as"
proof -
  let ?P = "\<lambda>m. msg_type m = ''assistant''"
  have u: "filter ?P (assistant_indexed 0 as) = assistant_indexed 0 as"
    by (simp add: assistant_indexed_type)
  have a: "filter ?P (user_indexed 0 us) = []"
    by (auto simp: filter_empty_conv dest: user_indexed_type)
  have "filter ?P (allMessages us as) = sort_key msg_index (assistant_indexed 0 as)"
    unfolding allMessages_alt by (simp add: filter_sort u a)
  also have "\<dots> = assistant_indexed 0 as"
    by (rule sort_key_id_if_sorted) (simp add: assistant_indexed_index sorted_odd)
  finally show ?thesis .
qed

lemma allMessages_assistants:
  "map msg_content (filter (\<lambda>m. msg_type m = ''assistant'') (allMessages us as)) = map JStr as"
  by (simp add: allMessages_assistants_indexed assistant_indexed_content)

lemma collect_lines_lists:
  "collect_lines b lines st = Inr st' \<Longrightarrow>
   userMessages st' = userMessages st @ users_of (extracted_of b lines)
   \<and> assistantMessages st' = assistantMessages st @ assistants_of (extracted_of b lines)"
proof (induction lines arbitrary: st)
  case Nil
  then show ?case by (simp add: extracted_of_def users_of_def assistants_of_def)
next
  case (Cons line lines)
  obtain x where x: "extract_line b line = Inr x" using extract_line_total by blast
  have r: "collect_lines b lines (push_extracted x st) = Inr st'"
    using Cons.prems x by (simp add: and_then_def)
  have e: "extracted_of b (line # lines) = x # extracted_of b lines"
    using x by (simp add: extracted_of_def)
  show ?case using Cons.IH [OF r] unfolding e
    by (cases x) (simp_all add: push_extracted_def users_of_def assistants_of_def)
qed

lemma collect_messages_lists:
  "collect_messages b lines = Inr st \<Longrightarrow>
   userMessages st = users_of (extracted_of b lines)
   \<and> assistantMessages st = assistants_of (extracted_of b lines)"
  unfolding collect_messages_def using collect_lines_lists by fastforce

lemma generateChatSummary_anchors:
  assumes "generateChatSummary b us as first chatId = Inr r" "an \<in> set (anchors r)"
  shows "\<exists>m \<in> set (allMessages us as).
           anchor_messageIndex an = msg_index m \<and> anchor_id an = anchorId_of (msg_index m)"
proof (cases "us = []")
  case True
  then show ?thesis using assms by (auto simp: generateChatSummary_def)
next
  case False
  then obtain alltext where t: "allText b (allMessages us as) = Inr alltext"
    using assms(1) by (auto simp: generateChatSummary_def and_then_def split: sum.splits)
  let ?accs = "accomplishments_of alltext (allMessages us as)"
  have "an \<in> set (map (\<lambda>item. \<lparr> anchor_id = acc_anchorId item,
                                  anchor_messageIndex = acc_messageIndex item \<rparr>) (take 3 ?accs))"
    using assms False t
    by (auto simp: generateChatSummary_def and_then_def Let_def split: if_splits)
  then obtain a where a: "a \<in> set (take 3 ?accs)"
    and an: "an = \<lparr> anchor_id = acc_anchorId a, anchor_messageIndex = acc_messageIndex a \<rparr>"
    by auto
  have "a \<in> set ?accs" using a by (rule in_set_takeD)
  then obtain m where "m \<in> set (allMessages us as)" "from_message m a"
    using accomplishments_members by blast
  then show ?thesis using an by (auto simp: from_message_def)
qed

lemma interleaved_content: "map msg_content (interleaved k u xs) = line_contents xs"
  by (induction k u xs rule: interleaved.induct) (simp_all add: line_contents_def)

lemma interleaved_sorted:
  "alternating_from u xs \<Longrightarrow>
   sorted (map msg_index (interleaved k u xs))
   \<and> (\<forall>m \<in> set (interleaved k u xs). k * 2 + (if u then 0 else 1) \<le> msg_index m)"
proof (induction k u xs rule: interleaved.induct)
  case (1 k u)
  then show ?case by simp
next
  case (2 k u xs)
  then show ?case by simp
next
  case (3 k u c xs)
  then have u: "u" and a: "alternating_from False xs" by simp_all
  have ih: "sorted (map msg_index (interleaved k False xs))"
    "\<forall>m \<in> set (interleaved k False xs). k * 2 + 1 \<le> msg_index m"
    using "3.IH" [OF a] by simp_all
  have "\<forall>m \<in> set (interleaved k False xs). k * 2 \<le> msg_index m"
    using ih(2) by auto
  then show ?case using ih(1) u by simp
next
  case (4 k u s xs)
  then have u: "\<not> u" and a: "alternating_from True xs" by simp_all
  have ih: "sorted (map msg_index (interleaved (Suc k) True xs))"
    "\<forall>m \<in> set (interleaved (Suc k) True xs). Suc k * 2 \<le> msg_index m"
    using "4.IH" [OF a] by simp_all
  have "\<forall>m \<in> set (interleaved (Suc k) True xs). k * 2 + 1 \<le> msg_index m"
    using ih(2) by auto
  then show ?case using ih(1) u by simp
qed

lemma user_indexed_Cons:
  "user_indexed k (c # us)
     = \<lparr> msg_content = c, msg_index = k * 2, msg_type = ''user'' \<rparr> # user_indexed (Suc k) us"
  by (simp add: user_indexed_def)

lemma assistant_indexed_Cons:
  "assistant_indexed k (s # as)
     = \<lparr> msg_content = JStr s, msg_index = k * 2 + 1, msg_type = ''assistant'' \<rparr>
         # assistant_indexed (Suc k) as"
  by (simp add: assistant_indexed_def)

lemma users_of_simps [simp]:
  "users_of [] = []" "users_of (Nothing # xs) = users_of xs"
  "users_of (UserMessage c # xs) = c # users_of xs"
  "users_of (AssistantMessage s # xs) = users_of xs"
  by (simp_all add: users_of_def)

lemma assistants_of_simps [simp]:
  "assistants_of [] = []" "assistants_of (Nothing # xs) = assistants_of xs"
  "assistants_of (UserMessage c # xs) = assistants_of xs"
  "assistants_of (AssistantMessage s # xs) = s # assistants_of xs"
  by (simp_all add: assistants_of_def)

lemma interleaved_mset:
  "alternating_from u xs \<Longrightarrow>
   mset (interleaved k u xs)
     = mset (user_indexed (if u then k else Suc k) (users_of xs))
       + mset (assistant_indexed k (assistants_of xs))"
proof (induction k u xs rule: interleaved.induct)
  case (1 k u)
  then show ?case by (simp add: user_indexed_def assistant_indexed_def)
next
  case (2 k u xs)
  then show ?case by simp
next
  case (3 k u c xs)
  then have u: "u" and a: "alternating_from False xs" by simp_all
  show ?case using "3.IH" [OF a] u by (simp add: user_indexed_Cons)
next
  case (4 k u s xs)
  then have u: "\<not> u" and a: "alternating_from True xs" by simp_all
  show ?case using "4.IH" [OF a] u by (simp add: assistant_indexed_Cons)
qed

lemma allMessages_alternating:
  assumes alt: "alternating_from True xs"
  shows "map msg_content (allMessages (users_of xs) (assistants_of xs)) = line_contents xs"
proof -
  let ?xs = "user_indexed 0 (users_of xs) @ assistant_indexed 0 (assistants_of xs)"
  have m: "mset ?xs = mset (interleaved 0 True xs)"
    using interleaved_mset [OF alt, of 0] by simp
  have "distinct (map msg_index ?xs)" by (rule distinct_indices)
  then have i: "inj_on msg_index (set ?xs)" by (simp only: distinct_map)
  have s: "sorted (map msg_index (interleaved 0 True xs))"
    using interleaved_sorted [OF alt, of 0] by simp
  have "sort_key msg_index ?xs = interleaved 0 True xs"
    using m i s by (rule sort_key_inj_key_eq)
  then show ?thesis by (simp add: allMessages_alt interleaved_content)
qed

lemmas summary_eval = allMessages_def msg_text_def allText_def verbs_def match_verb_def
  is_alnum_def cleaned_def anchorId_of_def consider_capture_def scan_message_def
  action_phase_def is_word_char_def file_extensions_def file_match_at_def unique_values_def
  file_phase_def bullet_link_def accomplishments_of_def generateChatSummary_def
  summarize_lines_def startsWith_def is_terminator_def toLowerCase_def toLowerCase_char_def
  show_nat.simps bullet_def lines_two_def lines_four_def lines_mixed_def

text \<open>
  Claim C2, as amended. The indices the Tier-1 summarizer gives the messages of a log are
  strictly increasing along allMessages, hence pairwise different; the user messages keep
  the order of their lines among themselves and have the indices 0, 2, 4, ..., and the
  assistant messages keep theirs and have the indices 1, 3, 5, ...; when user and
  assistant messages take turns in the log, allMessages is in the order of the lines; and
  every anchor of the summary carries the index of one of the messages, its id being msg-
  followed by that index.
\<close>

theorem C2_indices_increase_along_allMessages:
  assumes c: "collect_messages b lines = Inr st"
  shows "sorted_wrt (<) (map msg_index (allMessages (userMessages st) (assistantMessages st)))
     \<and> distinct (map msg_index (allMessages (userMessages st) (assistantMessages st)))
     \<and> map msg_content (filter (\<lambda>m. msg_type m = ''user'')
            (allMessages (userMessages st) (assistantMessages st)))
         = users_of (extracted_of b lines)
     \<and> map msg_index (filter (\<lambda>m. msg_type m = ''user'')
            (allMessages (userMessages st) (assistantMessages st)))
         = map (\<lambda>k. k * 2) [0..<length (users_of (extracted_of b lines))]
     \<and> map msg_content (filter (\<lambda>m. msg_type m = ''assistant'')
            (allMessages (userMessages st) (assistantMessages st)))
         = map JStr (assistants_of (extracted_of b lines))
     \<and> map msg_index (filter (\<lambda>m. msg_type m = ''assistant'')
            (allMessages (userMessages st) (assistantMessages st)))
         = map (\<lambda>k. k * 2 + 1) [0..<length (assistants_of (extracted_of b lines))]
     \<and> (alternating_from True (extracted_of b lines) \<longrightarrow>
          map msg_content (allMessages (userMessages st) (assistantMessages st))
            = in_line_order b lines)
     \<and> (\<forall>r an. generateChatSummary b (userMessages st) (assistantMessages st)
                   (firstUserMessage st) chatId = Inr r \<and> an \<in> set (anchors r) \<longrightarrow>
            (\<exists>m \<in> set (allMessages (userMessages st) (assistantMessages st)).
               anchor_messageIndex an = msg_index m
               \<and> anchor_id an = anchorId_of (msg_index m)))"
proof -
  let ?ms = "allMessages (userMessages st) (assistantMessages st)"
  have l: "userMessages st = users_of (extracted_of b lines)"
    "assistantMessages st = assistants_of (extracted_of b lines)"
    using collect_messages_lists [OF c] by simp_all
  have s: "sorted_wrt (<) (map msg_index ?ms)" by (rule allMessages_strict)
  then have d: "distinct (map msg_index ?ms)" by (simp add: strict_sorted_iff)
  have u: "map msg_content (filter (\<lambda>m. msg_type m = ''user'') ?ms)
             = users_of (extracted_of b lines)"
    using allMessages_users [of "userMessages st" "assistantMessages st"] l by simp
  have ui: "map msg_index (filter (\<lambda>m. msg_type m = ''user'') ?ms)
             = map (\<lambda>k. k * 2) [0..<length (users_of (extracted_of b lines))]"
    using user_indexed_index [of 0 "userMessages st"] l
    by (simp add: allMessages_users_indexed)
  have a: "map msg_content (filter (\<lambda>m. msg_type m = ''assistant'') ?ms)
             = map JStr (assistants_of (extracted_of b lines))"
    using allMessages_assistants [of "userMessages st" "assistantMessages st"] l by simp
  have ai: "map msg_index (filter (\<lambda>m. msg_type m = ''assistant'') ?ms)
             = map (\<lambda>k. k * 2 + 1) [0..<length (assistants_of (extracted_of b lines))]"
    using assistant_indexed_index [of 0 "assistantMessages st"] l
    by (simp add: allMessages_assistants_indexed)
  have alt: "map msg_content ?ms = in_line_order b lines"
    if "alternating_from True (extracted_of b lines)"
    using allMessages_alternating [OF that] l by (simp add: in_line_order_def)
  have an: "\<exists>m \<in> set ?ms. anchor_messageIndex an = msg_index m
               \<and> anchor_id an = anchorId_of (msg_index m)"
    if "generateChatSummary b (userMessages st) (assistantMessages st)
          (firstUserMessage st) chatId = Inr r" "an \<in> set (anchors r)" for r an
    using that by (rule generateChatSummary_anchors)
  show ?thesis using s d u ui a ai alt an by blast
qed

text \<open>
  The theorem of C2 at the log of two lines, whose summary has three anchors.
\<close>

theorem C2_indices_increase_along_allMessages_witness:
  "map msg_index (allMessages [JStr ''fixed a-b-c-d-e-f. thanks'']
                    [''I created the new login page for app.js!'']) = [0, 1]
   \<and> map msg_content (allMessages [JStr ''fixed a-b-c-d-e-f. thanks'']
                    [''I created the new login page for app.js!''])
       = in_line_order example_builtins lines_two
   \<and> (\<exists>r. summarize_lines example_builtins lines_two ''c1'' = Inr r
          \<and> map anchor_id (anchors r) = [''msg-1'', ''msg-0'', ''msg-1'']
          \<and> (\<forall>an \<in> set (anchors r).
                \<exists>m \<in> set (allMessages [JStr ''fixed a-b-c-d-e-f. thanks'']
                               [''I created the new login page for app.js!'']).
                  anchor_messageIndex an = msg_index m
                  \<and> anchor_id an = anchorId_of (msg_index m)))"
proof -
  let ?st = "\<lparr> userMessages = [JStr ''fixed a-b-c-d-e-f. thanks''],
               assistantMessages = [''I created the new login page for app.js!''],
               firstUserMessage = JStr ''fixed a-b-c-d-e-f. thanks'' \<rparr>"
  have c: "collect_messages example_builtins lines_two = Inr ?st"
    by (simp add: log_eval lines_two_def)
  have alt: "alternating_from True (extracted_of example_builtins lines_two)"
    by (simp add: log_eval lines_two_def)
  have i: "map msg_index (allMessages [JStr ''fixed a-b-c-d-e-f. thanks'']
                    [''I created the new login page for app.js!'']) = [0, 1]"
    by (simp add: allMessages_def)
  have g: "map_sum id (\<lambda>r. map anchor_id (anchors r))
             (generateChatSummary example_builtins (userMessages ?st) (assistantMessages ?st)
                (firstUserMessage ?st) ''c1'')
           = Inr [''msg-1'', ''msg-0'', ''msg-1'']"
    by (simp add: summary_eval log_eval)
  then obtain r where r: "generateChatSummary example_builtins (userMessages ?st)
        (assistantMessages ?st) (firstUserMessage ?st) ''c1'' = Inr r"
    "map anchor_id (anchors r) = [''msg-1'', ''msg-0'', ''msg-1'']"
    by (cases "generateChatSummary example_builtins (userMessages ?st)
        (assistantMessages ?st) (firstUserMessage ?st) ''c1''") auto
  have s: "summarize_lines example_builtins lines_two ''c1'' = Inr r"
    using c r(1) by (simp add: summarize_lines_def and_then_def)
  show ?thesis
    using C2_indices_increase_along_allMessages [OF c, of "''c1''"] alt i r s by auto
qed

text \<open>
  Claim C2 as stated fails: in a log with a user message, two assistant messages and a
  second user message, the second user message (fourth line) gets index 2 and the second
  assistant message (third line) gets index 3, so the order by index is not the order of
  the lines.
\<close>

theorem C2_index_order_is_not_line_order:
  "collect_messages example_builtins lines_four
     = Inr \<lparr> userMessages = [JStr ''a'', JStr ''d''], assistantMessages = [''b'', ''c''],
             firstUserMessage = JStr ''a'' \<rparr>
   \<and> in_line_order example_builtins lines_four = [JStr ''a'', JStr ''b'', JStr ''c'', JStr ''d'']
   \<and> map (\<lambda>m. (msg_content m, msg_index m)) (allMessages [JStr ''a'', JStr ''d''] [''b'', ''c''])
       = [(JStr ''a'', 0), (JStr ''b'', 1), (JStr ''d'', 2), (JStr ''c'', 3)]"
  by (simp add: log_eval lines_four_def allMessages_def)

text \<open>
  The theorem of C3 at a log with a line that is not JSON, a line that is null, and a
  line of an unknown shape: two messages are kept.
\<close>

theorem C3_no_error_leaves_the_normalizer_witness:
  "normalize_line example_builtins ''not json'' = Inr None
   \<and> extract_line example_builtins ''not json'' = Inr Nothing
   \<and> map role (concat (map (kept_message example_builtins) lines_mixed)) = [''user'', ''assistant'']
   \<and> parse_lines example_builtins lines_mixed
       = Inr (concat (map (kept_message example_builtins) lines_mixed))"
proof -
  have p: "JSON_parse example_builtins ''not json'' = Inl SyntaxError"
    by (simp add: log_eval)
  have k: "map role (concat (map (kept_message example_builtins) lines_mixed))
             = [''user'', ''assistant'']"
    by (simp add: kept_message_def log_eval lines_mixed_def)
  show ?thesis
    using C3_no_error_leaves_the_normalizer [of example_builtins "''not json''" lines_mixed] p k
    by blast
qed



end
